theory Spec2Isabelle
  imports Main "HOL-Library.AList"
begin

section \<open>JavaScript numbers\<close>

text \<open>
  A JavaScript number is an IEEE 754 double. The two programs compute with integers only:
  what \<open>parseInt\<close> reads, sums, differences and products of these, and the quotient and
  remainder that decode a numeric key. A double that is an integer is modelled by that
  integer. Every integer of magnitude up to \<open>2^53 = 9007199254740992\<close> is a double; an
  arithmetic result beyond is the exact result rounded to the nearest double, ties to
  the even mantissa (\<open>round_int\<close>), and an infinity once the rounded magnitude reaches
  \<open>2^1024\<close>.
\<close>

function bit_length :: "int \<Rightarrow> int" where
  "bit_length n = (if n \<le> 0 then 0 else bit_length (n div 2) + 1)"
  by pat_completeness auto
termination
  by (relation "measure nat") auto

declare bit_length.simps [simp del]

definition round_int :: "int \<Rightarrow> int" where
  "round_int n =
     (if \<bar>n\<bar> \<le> 9007199254740992 then n
      else let e = nat (bit_length \<bar>n\<bar> - 53);
               m = \<bar>n\<bar> div 2 ^ e;
               r = \<bar>n\<bar> mod 2 ^ e;
               h = 2 ^ (e - 1);
               m' = (if h < r \<or> (r = h \<and> odd m) then m + 1 else m)
           in sgn n * (m' * 2 ^ e))"

text \<open>
  \<open>Math.floor(a / b)\<close> for doubles \<open>a \<ge> 0\<close> and \<open>b > 0\<close> that are integers: the
  quotient is rounded to the nearest double before \<open>Math.floor\<close> sees it. For
  \<open>a \<le> 2^53\<close> the rounding never reaches the next integer, and the result is the
  integer quotient. Beyond, \<open>l\<close> is the binary exponent of the quotient, \<open>m'\<close> its
  mantissa of 53 bits after rounding and \<open>e\<close> the exponent of the last mantissa bit.
\<close>

definition quotient_floor :: "int \<Rightarrow> int \<Rightarrow> int" where
  "quotient_floor a b =
     (if a \<le> 9007199254740992 then a div b
      else let d = bit_length a - bit_length b;
               l = (if (if 0 \<le> d then b * 2 ^ nat d \<le> a else b \<le> a * 2 ^ nat (- d))
                    then d else d - 1);
               e = l - 52;
               num = (if 0 \<le> e then a else a * 2 ^ nat (- e));
               den = (if 0 \<le> e then b * 2 ^ nat e else b);
               m = num div den;
               r = num mod den;
               m' = (if den < 2 * r \<or> (2 * r = den \<and> odd m) then m + 1 else m)
           in if 0 \<le> e then m' * 2 ^ nat e else m' div 2 ^ nat (- e))"

subsection \<open>Coordinates, dimensions and keys\<close>

text \<open>
  Coordinates are non-negative integers wherever they come from a file (\<open>\d+\<close>).
  The numeric-key store of the second program divides a key by the column count, and a
  JavaScript division by zero does not fail: it yields \<open>Infinity\<close> or \<open>NaN\<close>. A
  coordinate, a dimension or a numeric key is therefore a non-negative integer,
  \<open>Infinity\<close> or \<open>NaN\<close>.
\<close>

datatype jsnum = Fin nat | Infinity | NaN

definition to_num :: "int \<Rightarrow> jsnum" where
  "to_num n = (if 1024 < bit_length (round_int n) then Infinity else Fin (nat (round_int n)))"

fun js_mul :: "jsnum \<Rightarrow> jsnum \<Rightarrow> jsnum" where
  "js_mul (Fin a) (Fin b) = to_num (int a * int b)"
| "js_mul NaN _ = NaN"
| "js_mul _ NaN = NaN"
| "js_mul Infinity (Fin b) = (if b = 0 then NaN else Infinity)"
| "js_mul (Fin a) Infinity = (if a = 0 then NaN else Infinity)"
| "js_mul Infinity Infinity = Infinity"

fun js_add :: "jsnum \<Rightarrow> jsnum \<Rightarrow> jsnum" where
  "js_add (Fin a) (Fin b) = to_num (int a + int b)"
| "js_add NaN _ = NaN"
| "js_add _ NaN = NaN"
| "js_add Infinity _ = Infinity"
| "js_add _ Infinity = Infinity"

text \<open>\<open>Math.floor(a / b)\<close>\<close>

fun js_floor_div :: "jsnum \<Rightarrow> jsnum \<Rightarrow> jsnum" where
  "js_floor_div (Fin a) (Fin b) =
     (if b = 0 then (if a = 0 then NaN else Infinity)
      else Fin (nat (quotient_floor (int a) (int b))))"
| "js_floor_div NaN _ = NaN"
| "js_floor_div _ NaN = NaN"
| "js_floor_div Infinity (Fin b) = Infinity"
| "js_floor_div (Fin a) Infinity = Fin 0"
| "js_floor_div Infinity Infinity = NaN"

text \<open>\<open>a % b\<close>: the remainder of two doubles is a double, no rounding takes place.\<close>

fun js_mod :: "jsnum \<Rightarrow> jsnum \<Rightarrow> jsnum" where
  "js_mod (Fin a) (Fin b) = (if b = 0 then NaN else Fin (a mod b))"
| "js_mod NaN _ = NaN"
| "js_mod _ NaN = NaN"
| "js_mod Infinity _ = NaN"
| "js_mod (Fin a) Infinity = Fin a"

text \<open>\<open>a === b\<close>: \<open>NaN\<close> is not equal to itself.\<close>

definition strict_eq :: "jsnum \<Rightarrow> jsnum \<Rightarrow> bool" where
  "strict_eq a b = (a \<noteq> NaN \<and> a = b)"

subsection \<open>Matrix values\<close>

text \<open>
  A value is what \<open>parseInt\<close> reads from \<open>-?\d+\<close> or what the operations compute from
  such values: an integer, \<open>Infinity\<close>, \<open>-Infinity\<close> or \<open>NaN\<close>. \<open>Val 0\<close> stands for
  both zeros of the doubles: the programs tell them apart nowhere (\<open>-0 !== 0\<close> is false,
  \<open>-0 || 0\<close> is \<open>0\<close>, and a sum with a non-zero term is never \<open>-0\<close>).
\<close>

datatype jsval = Val int | PInf | NInf | VNaN

instantiation jsval :: zero
begin

definition zero_jsval :: jsval where
  "zero_jsval = Val 0"

instance ..

end

definition to_val :: "int \<Rightarrow> jsval" where
  "to_val n = (if 1024 < bit_length \<bar>round_int n\<bar>
               then (if 0 < n then PInf else NInf)
               else Val (round_int n))"

fun val_add :: "jsval \<Rightarrow> jsval \<Rightarrow> jsval" where
  "val_add (Val a) (Val b) = to_val (a + b)"
| "val_add VNaN _ = VNaN"
| "val_add _ VNaN = VNaN"
| "val_add PInf NInf = VNaN"
| "val_add NInf PInf = VNaN"
| "val_add PInf _ = PInf"
| "val_add _ PInf = PInf"
| "val_add NInf _ = NInf"
| "val_add _ NInf = NInf"

fun val_sub :: "jsval \<Rightarrow> jsval \<Rightarrow> jsval" where
  "val_sub (Val a) (Val b) = to_val (a - b)"
| "val_sub VNaN _ = VNaN"
| "val_sub _ VNaN = VNaN"
| "val_sub PInf PInf = VNaN"
| "val_sub NInf NInf = VNaN"
| "val_sub PInf _ = PInf"
| "val_sub NInf _ = NInf"
| "val_sub _ PInf = NInf"
| "val_sub _ NInf = PInf"

fun val_mul :: "jsval \<Rightarrow> jsval \<Rightarrow> jsval" where
  "val_mul (Val a) (Val b) = to_val (a * b)"
| "val_mul VNaN _ = VNaN"
| "val_mul _ VNaN = VNaN"
| "val_mul PInf (Val b) = (if b = 0 then VNaN else if 0 < b then PInf else NInf)"
| "val_mul NInf (Val b) = (if b = 0 then VNaN else if 0 < b then NInf else PInf)"
| "val_mul (Val a) PInf = (if a = 0 then VNaN else if 0 < a then PInf else NInf)"
| "val_mul (Val a) NInf = (if a = 0 then VNaN else if 0 < a then NInf else PInf)"
| "val_mul PInf PInf = PInf"
| "val_mul PInf NInf = NInf"
| "val_mul NInf PInf = NInf"
| "val_mul NInf NInf = PInf"

text \<open>\<open>x || 0\<close> for \<open>x\<close> the result of \<open>Map.get\<close>: \<open>undefined\<close>, 0 and \<open>NaN\<close> are falsy.\<close>

fun or_zero :: "jsval option \<Rightarrow> jsval" where
  "or_zero None = Val 0"
| "or_zero (Some VNaN) = Val 0"
| "or_zero (Some v) = v"


subsection \<open>Numbers to strings and back\<close>

definition digit_char :: "nat \<Rightarrow> char" where
  "digit_char d = char_of (48 + d)"

fun dec :: "nat \<Rightarrow> string" where
  "dec n = (if n < 10 then [digit_char n] else dec (n div 10) @ [digit_char (n mod 10)])"

declare dec.simps [simp del]

text \<open>
  \<open>String(x)\<close>, as the template literal \<open>`${x}`\<close> applies it. Up to \<open>2^53\<close> it writes
  the decimal digits of the integer. Beyond, it writes the shortest run of digits \<open>s\<close>
  (\<open>k\<close> of them) for which \<open>s * 10^(e - k)\<close> still rounds to \<open>x\<close>, the closest to \<open>x\<close>
  among the runs of that length, followed by zeros when \<open>e \<le> 21\<close> and in exponent
  notation otherwise. \<open>digits_of x l k\<close> lists the runs of length \<open>k\<close>, for \<open>x\<close> of
  \<open>l\<close> decimal digits.
\<close>

definition digits_of :: "int \<Rightarrow> nat \<Rightarrow> nat \<Rightarrow> (nat \<times> int) list" where
  "digits_of x l k =
     concat (map (\<lambda>e. if k \<le> e
                       then filter (\<lambda>(e, s). 10 ^ (k - 1) \<le> s \<and> s < 10 ^ k
                                            \<and> round_int (s * 10 ^ (e - k)) = x)
                              [(e, x div 10 ^ (e - k)), (e, x div 10 ^ (e - k) + 1)]
                       else [])
                 [l, Suc l])"

fun closest :: "int \<Rightarrow> nat \<Rightarrow> (nat \<times> int) list \<Rightarrow> (nat \<times> int) option" where
  "closest x k [] = None"
| "closest x k ((e, s) # cs) =
     (case closest x k cs of
        None \<Rightarrow> Some (e, s)
      | Some (e', s') \<Rightarrow>
          (let d = \<bar>s * 10 ^ (e - k) - x\<bar>;
               d' = \<bar>s' * 10 ^ (e' - k) - x\<bar>
           in if d < d' \<or> (d = d' \<and> even s) then Some (e, s) else Some (e', s')))"

definition shortest :: "int \<Rightarrow> (nat \<times> nat \<times> int) option" where
  "shortest x =
     (case filter (\<lambda>k. digits_of x (length (dec (nat x))) k \<noteq> []) [1..<18] of
        [] \<Rightarrow> None
      | k # _ \<Rightarrow> map_option (\<lambda>(e, s). (e, k, s))
                   (closest x k (digits_of x (length (dec (nat x))) k)))"

fun String :: "jsnum \<Rightarrow> string" where
  "String (Fin n) =
     (if int n \<le> 9007199254740992 then dec n
      else case shortest (int n) of
             None \<Rightarrow> dec n
           | Some (e, k, s) \<Rightarrow>
               if e \<le> 21 then dec (nat s) @ replicate (e - k) CHR ''0''
               else (if k = 1 then dec (nat s)
                     else hd (dec (nat s)) # CHR ''.'' # tl (dec (nat s)))
                    @ ''e+'' @ dec (e - 1))"
| "String Infinity = ''Infinity''"
| "String NaN = ''NaN''"

definition is_digit_char :: "char \<Rightarrow> bool" where
  "is_digit_char c = (48 \<le> (of_char c :: nat) \<and> (of_char c :: nat) \<le> 57)"

definition digits_value :: "string \<Rightarrow> nat" where
  "digits_value s = foldl (\<lambda>n c. 10 * n + ((of_char c :: nat) - 48)) 0 s"

text \<open>
  \<open>Number(s)\<close> on the strings \<open>String\<close> writes: a run of decimal digits, the exponent
  notation \<open>d.ddde+dd\<close>, \<open>Infinity\<close>, \<open>NaN\<close>. The number read is rounded to a double.
  The empty string converts to 0. Every other string is taken to \<open>NaN\<close>; the stores
  never hold such a key piece.
\<close>

definition exponent_value :: "string \<Rightarrow> jsnum" where
  "exponent_value s =
     (let m = takeWhile is_digit_char s;
          r = dropWhile is_digit_char s;
          f = (if take 1 r = ''.'' then takeWhile is_digit_char (drop 1 r) else []);
          r = (if take 1 r = ''.'' then dropWhile is_digit_char (drop 1 r) else r);
          e = drop 2 r
      in if m \<noteq> [] \<and> take 2 r = ''e+'' \<and> e \<noteq> [] \<and> list_all is_digit_char e
            \<and> length f \<le> digits_value e
         then to_num (int (digits_value (m @ f)) * 10 ^ (digits_value e - length f))
         else NaN)"

definition Number :: "string \<Rightarrow> jsnum" where
  "Number s = (if list_all is_digit_char s then to_num (int (digits_value s))
               else if s = ''Infinity'' then Infinity
               else exponent_value s)"

text \<open>\<open>s.split(d)\<close> for a one-character separator.\<close>

fun split :: "'a \<Rightarrow> 'a list \<Rightarrow> 'a list list" where
  "split d [] = [[]]"
| "split d (x # xs) =
     (if x = d then [] # split d xs
      else (case split d xs of [] \<Rightarrow> [[x]] | p # ps \<Rightarrow> (x # p) # ps))"

section \<open>The JavaScript Map\<close>

text \<open>
  A \<open>Map\<close> keeps its entries in insertion order, one per key: \<open>set\<close> on a present key
  replaces the value in place, on an absent key appends; \<open>delete\<close> removes the entry.
  Keys are compared by SameValueZero, under which \<open>NaN\<close> equals itself: HOL equality.
\<close>

definition Map_get :: "('k \<times> 'v) list \<Rightarrow> 'k \<Rightarrow> 'v option" where
  "Map_get m k = map_of m k"

definition Map_set :: "('k \<times> 'v) list \<Rightarrow> 'k \<Rightarrow> 'v \<Rightarrow> ('k \<times> 'v) list" where
  "Map_set m k v = AList.update k v m"

definition Map_delete :: "('k \<times> 'v) list \<Rightarrow> 'k \<Rightarrow> ('k \<times> 'v) list" where
  "Map_delete m k = AList.delete k m"

section \<open>The matrix object\<close>

text \<open>
  Both programs keep \<open>rows\<close>, \<open>cols\<close> and a Map \<open>elements\<close>. In \<open>src/index.js\<close> the
  key is the string \<open>`${row},${col}`\<close> (class \<open>SparseMatrix\<close>); in
  \<open>src/unnamed/part_000\<close> it is the number \<open>row * cols + col\<close> (class \<open>SparseMap\<close>,
  which the \<open>SparseMatrix\<close> of that file wraps as its only field \<open>data\<close> and delegates to).
\<close>

record 'k matrix =
  rows :: jsnum
  cols :: jsnum
  elements :: "('k \<times> jsval) list"

type_synonym SparseMatrix = "string matrix"
type_synonym SparseMap = "jsnum matrix"

datatype error =
    InsufficientData    \<comment> \<open>\<open>'Input file has insufficient data'\<close>\<close>
  | WrongFormat         \<comment> \<open>\<open>'Input file has wrong format'\<close>\<close>
  | Incompatible        \<comment> \<open>\<open>'Matrix dimensions are not compatible for multiplication'\<close>\<close>

definition MalformedInput :: "error \<Rightarrow> bool" where
  "MalformedInput e = (e = InsufficientData \<or> e = WrongFormat)"

definition DimensionMismatch :: "error \<Rightarrow> bool" where
  "DimensionMismatch e = (e = Incompatible)"

definition new_matrix :: "jsnum \<Rightarrow> jsnum \<Rightarrow> 'k matrix" where
  "new_matrix r c = \<lparr>rows = r, cols = c, elements = []\<rparr>"

section \<open>src/index.js: string keys\<close>

definition key_of :: "jsnum \<Rightarrow> jsnum \<Rightarrow> string" where
  "key_of currRow currCol = String currRow @ '','' @ String currCol"

text \<open>
  \<open>const [row, col] = key.split(',').map(Number)\<close>. A key with fewer than two pieces
  would leave the missing name \<open>undefined\<close>; no key written by \<open>setElement\<close> is
  such, and the model takes the missing piece to \<open>NaN\<close>.
\<close>

definition split_key :: "string \<Rightarrow> jsnum \<times> jsnum" where
  "split_key key = (case map Number (split CHR '','' key) of
                      row # col # _ \<Rightarrow> (row, col)
                    | [row] \<Rightarrow> (row, NaN)
                    | [] \<Rightarrow> (NaN, NaN))"

definition getElement :: "SparseMatrix \<Rightarrow> jsnum \<Rightarrow> jsnum \<Rightarrow> jsval" where
  "getElement m currRow currCol = or_zero (Map_get (elements m) (key_of currRow currCol))"

definition setElement :: "SparseMatrix \<Rightarrow> jsnum \<Rightarrow> jsnum \<Rightarrow> jsval \<Rightarrow> SparseMatrix" where
  "setElement m currRow currCol v =
     (if v \<noteq> Val 0 then m\<lparr>elements := Map_set (elements m) (key_of currRow currCol) v\<rparr>
      else m\<lparr>elements := Map_delete (elements m) (key_of currRow currCol)\<rparr>)"

definition copy_entries :: "SparseMatrix \<Rightarrow> (string \<times> jsval) list \<Rightarrow> SparseMatrix" where
  "copy_entries result es =
     foldl (\<lambda>result (key, v). result\<lparr>elements := Map_set (elements result) key v\<rparr>) result es"

definition add :: "SparseMatrix \<Rightarrow> SparseMatrix \<Rightarrow> SparseMatrix" where
  "add this other =
     foldl (\<lambda>result (key, v).
              case split_key key of (row, col) \<Rightarrow>
                setElement result row col (val_add (getElement result row col) v))
           (copy_entries (new_matrix (rows this) (cols this)) (elements this))
           (elements other)"

definition subtract :: "SparseMatrix \<Rightarrow> SparseMatrix \<Rightarrow> SparseMatrix" where
  "subtract this other =
     foldl (\<lambda>result (key, v).
              case split_key key of (row, col) \<Rightarrow>
                setElement result row col (val_sub (getElement result row col) v))
           (copy_entries (new_matrix (rows this) (cols this)) (elements this))
           (elements other)"

definition multiply :: "SparseMatrix \<Rightarrow> SparseMatrix \<Rightarrow> error + SparseMatrix" where
  "multiply this other =
     (if \<not> strict_eq (cols this) (rows other) then Inl Incompatible
      else Inr
        (foldl (\<lambda>result (key1, value1).
                  case split_key key1 of (i, k) \<Rightarrow>
                    foldl (\<lambda>result (key2, value2).
                             case split_key key2 of (row, j) \<Rightarrow>
                               if strict_eq k row
                               then setElement result i j
                                      (val_add (getElement result i j) (val_mul value1 value2))
                               else result)
                          result (elements other))
               (new_matrix (rows this) (cols other))
               (elements this)))"

section \<open>src/unnamed/part_000: numeric keys\<close>

definition getKey :: "SparseMap \<Rightarrow> jsnum \<Rightarrow> jsnum \<Rightarrow> jsnum" where
  "getKey m row col = js_add (js_mul row (cols m)) col"

definition get :: "SparseMap \<Rightarrow> jsnum \<Rightarrow> jsnum \<Rightarrow> jsval" where
  "get m row col = or_zero (Map_get (elements m) (getKey m row col))"

definition set_entry :: "SparseMap \<Rightarrow> jsnum \<Rightarrow> jsnum \<Rightarrow> jsval \<Rightarrow> SparseMap" where
  "set_entry m row col v =
     (if v \<noteq> Val 0 then m\<lparr>elements := Map_set (elements m) (getKey m row col) v\<rparr>
      else m\<lparr>elements := Map_delete (elements m) (getKey m row col)\<rparr>)"

text \<open>The generator \<open>[Symbol.iterator]\<close>, as the list of triples it yields.\<close>

definition iterator :: "SparseMap \<Rightarrow> (jsnum \<times> jsnum \<times> jsval) list" where
  "iterator m =
     map (\<lambda>(key, v). (js_floor_div key (cols m), js_mod key (cols m), v)) (elements m)"

definition size_of :: "'k matrix \<Rightarrow> nat" where
  "size_of m = length (elements m)"

definition add2 :: "SparseMap \<Rightarrow> SparseMap \<Rightarrow> SparseMap" where
  "add2 this other =
     foldl (\<lambda>result (row, col, v).
              set_entry result row col (val_add (get result row col) v))
           (foldl (\<lambda>result (row, col, v). set_entry result row col v)
                  (new_matrix (rows this) (cols this)) (iterator this))
           (iterator other)"

definition subtract2 :: "SparseMap \<Rightarrow> SparseMap \<Rightarrow> SparseMap" where
  "subtract2 this other =
     foldl (\<lambda>result (row, col, v).
              set_entry result row col (val_sub (get result row col) v))
           (foldl (\<lambda>result (row, col, v). set_entry result row col v)
                  (new_matrix (rows this) (cols this)) (iterator this))
           (iterator other)"

definition multiply2 :: "SparseMap \<Rightarrow> SparseMap \<Rightarrow> error + SparseMap" where
  "multiply2 this other =
     (if \<not> strict_eq (cols this) (rows other) then Inl Incompatible
      else Inr
        (foldl (\<lambda>result (i, k, value1).
                  foldl (\<lambda>result (row, j, value2).
                           if strict_eq k row
                           then set_entry result i j
                                  (val_add (get result i j) (val_mul value1 value2))
                           else result)
                        result (iterator other))
               (new_matrix (rows this) (cols other))
               (iterator this)))"

section \<open>Reading a matrix file\<close>

text \<open>
  The content of a file, once read with the encoding \<open>'utf8'\<close>, is a JavaScript string:
  a list of UTF-16 code units, each a number from 0 to 65535, modelled as \<open>int\<close>.
  \<open>is_space\<close> is the class \<open>\s\<close> of a regular expression, which is also what
  \<open>trim()\<close> strips (white space and line terminators); \<open>is_digit\<close> is \<open>\d\<close>.
\<close>

definition is_space :: "int \<Rightarrow> bool" where
  "is_space c = (c \<in> {9, 10, 11, 12, 13, 32, 160, 5760, 8232, 8233, 8239, 8287, 12288, 65279}
                 \<or> (8192 \<le> c \<and> c \<le> 8202))"

definition is_digit :: "int \<Rightarrow> bool" where
  "is_digit c = (48 \<le> c \<and> c \<le> 57)"

definition lit :: "string \<Rightarrow> int list" where
  "lit s = map of_char s"

definition trim :: "int list \<Rightarrow> int list" where
  "trim s = rev (dropWhile is_space (rev (dropWhile is_space s)))"

text \<open>\<open>content.split('\n').map(line => line.trim()).filter(line => line)\<close>\<close>

definition file_lines :: "int list \<Rightarrow> int list list" where
  "file_lines content = filter (\<lambda>line. line \<noteq> []) (map trim (split 10 content))"

text \<open>
  \<open>parseInt\<close> on a match of \<open>\d+\<close>, and on a match of \<open>-?\d+\<close>: the integer the digits
  write, rounded to a double (the conversion of V8 is correctly rounded for any number of
  digits), \<open>Infinity\<close> from \<open>2^1024\<close> on.
\<close>

definition decimal :: "int list \<Rightarrow> int" where
  "decimal s = foldl (\<lambda>n c. 10 * n + (c - 48)) 0 s"

definition parseInt_digits :: "int list \<Rightarrow> jsnum" where
  "parseInt_digits s = to_num (decimal s)"

definition parseInt :: "int list \<Rightarrow> jsval" where
  "parseInt s = (if s \<noteq> [] \<and> hd s = 45 then to_val (- decimal (tl s))
                 else to_val (decimal s))"

text \<open>
  \<open>line.match(re)\<close> for a regular expression without the global flag finds the leftmost
  match: \<open>find_match p\<close> tries the matcher \<open>p\<close> of the expression at every position,
  from the left. In the three expressions of the programs every repetition is followed
  by a character outside its class, so matching each repetition greedily, as the matchers
  below do, finds a match wherever there is one.
\<close>

fun find_match :: "(int list \<Rightarrow> 'a option) \<Rightarrow> int list \<Rightarrow> 'a option" where
  "find_match p [] = p []"
| "find_match p (c # cs) = (case p (c # cs) of Some x \<Rightarrow> Some x | None \<Rightarrow> find_match p cs)"

definition expect :: "int list \<Rightarrow> int list \<Rightarrow> int list option" where
  "expect l s = (if take (length l) s = l then Some (drop (length l) s) else None)"

definition digits_plus :: "int list \<Rightarrow> (int list \<times> int list) option" where
  "digits_plus s = (if takeWhile is_digit s = [] then None
                    else Some (takeWhile is_digit s, dropWhile is_digit s))"

text \<open>\<open>/rows=(\d+)/\<close> and \<open>/cols=(\d+)/\<close> at the start of \<open>s\<close>: the captured group.\<close>

definition header_at :: "string \<Rightarrow> int list \<Rightarrow> int list option" where
  "header_at name s =
     Option.bind (expect (lit name) s) (\<lambda>r.
     Option.bind (digits_plus r) (\<lambda>(ds, _). Some ds))"

text \<open>\<open>/\((\d+),\s*(\d+),\s*(-?\d+)\)/\<close> at the start of \<open>s\<close>: the three captured groups.\<close>

definition elem_at :: "int list \<Rightarrow> (int list \<times> int list \<times> int list) option" where
  "elem_at s =
     Option.bind (expect (lit ''('') s) (\<lambda>r.
     Option.bind (digits_plus r) (\<lambda>(row, r).
     Option.bind (expect (lit '','') r) (\<lambda>r.
     Option.bind (digits_plus (dropWhile is_space r)) (\<lambda>(col, r).
     Option.bind (expect (lit '','') r) (\<lambda>r.
     let r = dropWhile is_space r;
         sign = (if take 1 r = lit ''-'' then lit ''-'' else []);
         r = drop (length sign) r
     in Option.bind (digits_plus r) (\<lambda>(ds, r).
        Option.bind (expect (lit '')'') r) (\<lambda>_. Some (row, col, sign @ ds))))))))"

text \<open>
  The element a line of the element section contributes: the match of the element
  expression, its three groups converted by \<open>parseInt\<close>; \<open>None\<close> when the line does
  not match.
\<close>

definition line_element :: "int list \<Rightarrow> (jsnum \<times> jsnum \<times> jsval) option" where
  "line_element line =
     map_option (\<lambda>(row, col, v). (parseInt_digits row, parseInt_digits col, parseInt v))
       (find_match elem_at line)"

text \<open>
  \<open>FileHandler.readMatrix\<close> of \<open>src/unnamed/part_000\<close>, given the content read:
  \<open>read_lines\<close> is the body of the function from the length check on.
\<close>

definition read_lines ::
  "int list list \<Rightarrow> error + jsnum \<times> jsnum \<times> (jsnum \<times> jsnum \<times> jsval) list" where
  "read_lines lines =
     (if length lines < 3 then Inl InsufficientData
      else case (find_match (header_at ''rows='') (lines ! 0),
                 find_match (header_at ''cols='') (lines ! 1)) of
             (Some rowMatch, Some colMatch) \<Rightarrow>
               Inr (parseInt_digits rowMatch, parseInt_digits colMatch,
                    foldl (\<lambda>elements line.
                             case line_element line of
                               Some e \<Rightarrow> elements @ [e]
                             | None \<Rightarrow> elements)
                          [] (drop 2 lines))
           | _ \<Rightarrow> Inl WrongFormat)"

definition readMatrix ::
  "int list \<Rightarrow> error + jsnum \<times> jsnum \<times> (jsnum \<times> jsnum \<times> jsval) list" where
  "readMatrix content = read_lines (file_lines content)"

text \<open>\<open>SparseMatrix.fromFile\<close> of \<open>src/unnamed/part_000\<close>.\<close>

definition fromFile :: "int list \<Rightarrow> error + SparseMap" where
  "fromFile content =
     (case readMatrix content of
        Inl e \<Rightarrow> Inl e
      | Inr (r, c, elems) \<Rightarrow>
          Inr (foldl (\<lambda>matrix (row, col, v). set_entry matrix row col v)
                     (new_matrix r c) elems))"

text \<open>
  \<open>loadFromFile\<close> of \<open>src/index.js\<close>, on the matrix the constructor has initialised;
  \<open>load_lines\<close> is the body of the function from the length check on.
\<close>

definition load_lines :: "int list list \<Rightarrow> error + SparseMatrix" where
  "load_lines lines =
     (if length lines < 3 then Inl InsufficientData
      else case (find_match (header_at ''rows='') (lines ! 0),
                 find_match (header_at ''cols='') (lines ! 1)) of
             (Some rowMatch, Some colMatch) \<Rightarrow>
               Inr (foldl (\<lambda>this line.
                             case line_element line of
                               Some (row, col, v) \<Rightarrow> setElement this row col v
                             | None \<Rightarrow> this)
                          \<lparr>rows = parseInt_digits rowMatch, cols = parseInt_digits colMatch,
                           elements = []\<rparr>
                          (drop 2 lines))
           | _ \<Rightarrow> Inl WrongFormat)"

definition loadFromFile :: "int list \<Rightarrow> error + SparseMatrix" where
  "loadFromFile content = load_lines (file_lines content)"

section \<open>Objects and calls\<close>

text \<open>
  Matrices are objects. A heap is the list of the objects allocated so far and a
  reference is an index into it. \<open>multiply\<close> writes to one object only, the
  \<open>result\<close> it allocates with \<open>new SparseMatrix\<close>, and it allocates after the
  dimension check: a call returns the heap it leaves behind and either the error thrown
  or the reference of the new object.
\<close>

definition multiply_call ::
  "SparseMatrix list \<Rightarrow> nat \<Rightarrow> nat \<Rightarrow> (error + nat) \<times> SparseMatrix list" where
  "multiply_call heap this other =
     (case multiply (heap ! this) (heap ! other) of
        Inl e \<Rightarrow> (Inl e, heap)
      | Inr result \<Rightarrow> (Inr (length heap), heap @ [result]))"

definition multiply2_call ::
  "SparseMap list \<Rightarrow> nat \<Rightarrow> nat \<Rightarrow> (error + nat) \<times> SparseMap list" where
  "multiply2_call heap this other =
     (case multiply2 (heap ! this) (heap ! other) of
        Inl e \<Rightarrow> (Inl e, heap)
      | Inr result \<Rightarrow> (Inr (length heap), heap @ [result]))"

text \<open>A sequence of \<open>setElement\<close> calls on one matrix, as the loaders of both files run.\<close>

definition setElements :: "SparseMatrix \<Rightarrow> (jsnum \<times> jsnum \<times> jsval) list \<Rightarrow> SparseMatrix" where
  "setElements m ops = foldl (\<lambda>m (row, col, v). setElement m row col v) m ops"

definition set_entries :: "SparseMap \<Rightarrow> (jsnum \<times> jsnum \<times> jsval) list \<Rightarrow> SparseMap" where
  "set_entries m ops = foldl (\<lambda>m (row, col, v). set_entry m row col v) m ops"

section \<open>Where the arithmetic is exact\<close>

text \<open>
  Up to \<open>2^53\<close> in magnitude no operation rounds.
\<close>

lemma bit_length_le: "n < 2 ^ k \<Longrightarrow> bit_length n \<le> int k"
proof (induction k arbitrary: n)
  case 0
  then show ?case by (subst bit_length.simps) simp
next
  case (Suc k)
  show ?case
  proof (cases "n \<le> 0")
    case True
    then show ?thesis by (subst bit_length.simps) simp
  next
    case False
    from Suc.prems have "n div 2 < 2 ^ k" by simp
    from Suc.IH[OF this] False show ?thesis
      by (subst bit_length.simps) simp
  qed
qed

lemma round_int_exact: "\<bar>n\<bar> \<le> 9007199254740992 \<Longrightarrow> round_int n = n"
  by (simp add: round_int_def)

lemma bit_length_small: "\<bar>n\<bar> \<le> 9007199254740992 \<Longrightarrow> \<not> 1024 < bit_length \<bar>n\<bar>"
proof -
  assume "\<bar>n\<bar> \<le> 9007199254740992"
  then have "\<bar>n\<bar> < 2 ^ 54" by simp
  from bit_length_le[OF this] show ?thesis by simp
qed

lemma to_val_exact: "\<bar>n\<bar> \<le> 9007199254740992 \<Longrightarrow> to_val n = Val n"
  by (simp add: to_val_def round_int_exact bit_length_small)

lemma to_num_exact: "0 \<le> n \<Longrightarrow> n \<le> 9007199254740992 \<Longrightarrow> to_num n = Fin (nat n)"
  using bit_length_small[of n] by (simp add: to_num_def round_int_exact)

lemma js_mul_exact:
  "int a * int b \<le> 9007199254740992 \<Longrightarrow> js_mul (Fin a) (Fin b) = Fin (a * b)"
  by (simp add: to_num_exact nat_mult_distrib)

lemma js_add_exact:
  "int a + int b \<le> 9007199254740992 \<Longrightarrow> js_add (Fin a) (Fin b) = Fin (a + b)"
  by (simp add: to_num_exact nat_add_distrib)

lemma js_floor_div_exact:
  "int a \<le> 9007199254740992 \<Longrightarrow> 0 < b \<Longrightarrow> js_floor_div (Fin a) (Fin b) = Fin (a div b)"
  by (simp add: quotient_floor_def zdiv_int[symmetric])

lemma val_add_exact: "\<bar>a + b\<bar> \<le> 9007199254740992 \<Longrightarrow> val_add (Val a) (Val b) = Val (a + b)"
  by (simp add: to_val_exact)

lemma val_sub_exact: "\<bar>a - b\<bar> \<le> 9007199254740992 \<Longrightarrow> val_sub (Val a) (Val b) = Val (a - b)"
  by (simp add: to_val_exact)

lemma val_mul_exact: "\<bar>a * b\<bar> \<le> 9007199254740992 \<Longrightarrow> val_mul (Val a) (Val b) = Val (a * b)"
  by (simp add: to_val_exact)

section \<open>Reading and writing a store\<close>

text \<open>
  Both programs read with \<open>elements.get(key) || 0\<close> and write with
  \<open>if (value !== 0) elements.set(key, value) else elements.delete(key)\<close>. \<open>store\<close> is
  the write on the entry list and \<open>value_at\<close> the value a key holds, 0 when it holds
  none; the read of the programs takes a \<open>NaN\<close> held to 0 as well. \<open>elided\<close> is the state
  of a Map that holds no zero: one entry per key, no value 0. The functions serve for lists
  of values (where 0 is \<open>Val 0\<close>) and for lists of integers.
\<close>

definition value_at :: "('k \<times> 'v::zero) list \<Rightarrow> 'k \<Rightarrow> 'v" where
  "value_at el k = (case map_of el k of None \<Rightarrow> 0 | Some v \<Rightarrow> v)"

definition store :: "('k \<times> 'v::zero) list \<Rightarrow> 'k \<Rightarrow> 'v \<Rightarrow> ('k \<times> 'v) list" where
  "store el k v = (if v \<noteq> 0 then Map_set el k v else Map_delete el k)"

definition elided :: "('k \<times> 'v::zero) list \<Rightarrow> bool" where
  "elided el = (distinct (map fst el) \<and> 0 \<notin> snd ` set el)"

definition fetch :: "('k \<times> jsval) list \<Rightarrow> 'k \<Rightarrow> jsval" where
  "fetch el k = or_zero (Map_get el k)"

lemma fetch_value_at: "fetch el k = or_zero (Some (value_at el k))"
  by (cases "map_of el k") (simp_all add: fetch_def value_at_def Map_get_def zero_jsval_def)

lemma or_zero_Some: "v \<noteq> VNaN \<Longrightarrow> or_zero (Some v) = v"
  by (cases v) simp_all

lemma getElement_fetch: "getElement m r c = fetch (elements m) (key_of r c)"
  by (simp add: getElement_def fetch_def)

lemma setElement_store: "setElement m r c v = m\<lparr>elements := store (elements m) (key_of r c) v\<rparr>"
  by (simp add: setElement_def store_def zero_jsval_def)

lemma get_fetch: "get m r c = fetch (elements m) (getKey m r c)"
  by (simp add: get_def fetch_def)

lemma set_entry_store: "set_entry m r c v = m\<lparr>elements := store (elements m) (getKey m r c) v\<rparr>"
  by (simp add: set_entry_def store_def zero_jsval_def)

lemma getKey_cong: "cols m = cols m' \<Longrightarrow> getKey m = getKey m'"
  by (rule ext, rule ext) (simp add: getKey_def)

lemma getKey_update: "getKey (m\<lparr>elements := x\<rparr>) = getKey m"
  by (rule getKey_cong) simp

lemma value_at_store: "value_at (store el k v) k' = (if k' = k then v else value_at el k')"
  by (simp add: value_at_def store_def Map_set_def Map_delete_def update_conv' delete_conv')

lemma map_of_store:
  "map_of (store el k v) k' = (if k' = k then (if v \<noteq> 0 then Some v else None) else map_of el k')"
  by (simp add: store_def Map_set_def Map_delete_def update_conv' delete_conv')

lemma set_update_subset: "set (AList.update k v el) \<subseteq> insert (k, v) (set el)"
  by (induction el) auto

lemma set_delete_subset: "set (AList.delete k el) \<subseteq> set el"
  by (auto simp: AList.delete_eq)

lemma elided_Nil: "elided []"
  by (simp add: elided_def)

lemma elided_store:
  assumes "elided el"
  shows "elided (store el k v)"
proof (cases "v = 0")
  case True
  then show ?thesis
    using assms set_delete_subset[of k el]
    by (auto simp: elided_def store_def Map_delete_def distinct_delete)
next
  case False
  then show ?thesis
    using assms set_update_subset[of k v el]
    by (auto simp: elided_def store_def Map_set_def distinct_update)
qed

lemma elided_mem:
  assumes "elided el"
  shows "(k, v) \<in> set el \<longleftrightarrow> value_at el k = v \<and> v \<noteq> 0"
proof -
  from assms have d: "distinct (map fst el)" and nz: "0 \<notin> snd ` set el"
    by (simp_all add: elided_def)
  have m: "(k, v) \<in> set el \<longleftrightarrow> map_of el k = Some v"
    using d by simp
  show ?thesis
  proof
    assume "(k, v) \<in> set el"
    with m nz show "value_at el k = v \<and> v \<noteq> 0"
      by (force simp: value_at_def)
  next
    assume "value_at el k = v \<and> v \<noteq> 0"
    then have "map_of el k = Some v"
      by (cases "map_of el k") (simp_all add: value_at_def)
    with m show "(k, v) \<in> set el" by simp
  qed
qed

lemma elided_key_iff: "elided el \<Longrightarrow> k \<in> fst ` set el \<longleftrightarrow> value_at el k \<noteq> 0"
  using elided_mem[of el k] by force

lemma key_iff_map_of: "k \<in> fst ` set el \<longleftrightarrow> map_of el k \<noteq> None"
  by (simp add: map_of_eq_None_iff)

lemma length_update:
  "length (AList.update k v el) = (if k \<in> fst ` set el then length el else Suc (length el))"
  by (induction el) auto

lemma length_delete:
  "distinct (map fst el) \<Longrightarrow>
   length (AList.delete k el) = (if k \<in> fst ` set el then length el - 1 else length el)"
proof (induction el)
  case Nil
  then show ?case by simp
next
  case (Cons p el)
  then show ?case
    by (cases el) (auto simp: AList.delete_eq image_iff)
qed

lemma length_store:
  assumes "elided el"
  shows "length (store el k v) =
     (if v \<noteq> 0 then (if map_of el k \<noteq> None then length el else Suc (length el))
      else (if map_of el k \<noteq> None then length el - 1 else length el))"
proof -
  from assms have d: "distinct (map fst el)"
    by (simp add: elided_def)
  show ?thesis
    by (simp add: store_def Map_set_def Map_delete_def length_update length_delete[OF d]
        key_iff_map_of)
qed

lemma elided_setElements: "elided (elements m) \<Longrightarrow> elided (elements (setElements m ops))"
  unfolding setElements_def
  by (induction ops arbitrary: m) (auto simp: setElement_store elided_store)

lemma elided_set_entries: "elided (elements m) \<Longrightarrow> elided (elements (set_entries m ops))"
  unfolding set_entries_def
  by (induction ops arbitrary: m) (auto simp: set_entry_store elided_store)

section \<open>The loops of the operations, on the entry list\<close>

text \<open>
  Every loop body of \<open>add\<close>, \<open>subtract\<close> and \<open>multiply\<close> reads one key and writes
  the same key. The lemmas of this section rewrite each loop of the two programs into a
  fold over the entry list of \<open>result\<close>: \<open>combine\<close> for the second loop of \<open>add\<close> and
  \<open>subtract\<close>, \<open>combine_products\<close> for the nested loops of \<open>multiply\<close>; \<open>entries\<close> is
  the list of triples the loops of \<open>src/index.js\<close> decode from the keys.
\<close>

definition combine ::
  "('a \<Rightarrow> 'b \<Rightarrow> 'k) \<Rightarrow> (jsval \<Rightarrow> jsval \<Rightarrow> jsval) \<Rightarrow> ('k \<times> jsval) list \<Rightarrow>
   ('a \<times> 'b \<times> jsval) list \<Rightarrow> ('k \<times> jsval) list" where
  "combine kf f el ts =
     foldl (\<lambda>el (r, c, v). store el (kf r c) (f (fetch el (kf r c)) v)) el ts"

definition combine_products ::
  "(jsnum \<Rightarrow> jsnum \<Rightarrow> 'k) \<Rightarrow> ('k \<times> jsval) list \<Rightarrow> (jsnum \<times> jsnum \<times> jsval) list \<Rightarrow>
   (jsnum \<times> jsnum \<times> jsval) list \<Rightarrow> ('k \<times> jsval) list" where
  "combine_products kf el ts us =
     foldl (\<lambda>el (i, k, v1).
              foldl (\<lambda>el (row, j, v2).
                       if strict_eq k row
                       then store el (kf i j) (val_add (fetch el (kf i j)) (val_mul v1 v2))
                       else el)
                    el us)
           el ts"

definition entries :: "SparseMatrix \<Rightarrow> (jsnum \<times> jsnum \<times> jsval) list" where
  "entries m = map (\<lambda>(key, v). case split_key key of (row, col) \<Rightarrow> (row, col, v)) (elements m)"

lemma combine_loop:
  "foldl (\<lambda>result (key, v). case split_key key of (row, col) \<Rightarrow>
            setElement result row col (f (getElement result row col) v)) m es
   = m\<lparr>elements := combine key_of f (elements m)
         (map (\<lambda>(key, v). case split_key key of (row, col) \<Rightarrow> (row, col, v)) es)\<rparr>"
  by (induction es arbitrary: m)
     (simp_all add: combine_def setElement_store getElement_fetch split: prod.splits)

lemma copy_loop:
  "copy_entries m es = m\<lparr>elements := foldl (\<lambda>el (key, v). Map_set el key v) (elements m) es\<rparr>"
  unfolding copy_entries_def
  by (induction es arbitrary: m) (simp_all split: prod.splits)

lemma multiply_loop:
  "foldl (\<lambda>result (key1, value1). case split_key key1 of (i, k) \<Rightarrow>
            foldl (\<lambda>result (key2, value2). case split_key key2 of (row, j) \<Rightarrow>
                     if strict_eq k row
                     then setElement result i j
                            (val_add (getElement result i j) (val_mul value1 value2))
                     else result) result es2) m es1
   = m\<lparr>elements := combine_products key_of (elements m)
         (map (\<lambda>(key, v). case split_key key of (row, col) \<Rightarrow> (row, col, v)) es1)
         (map (\<lambda>(key, v). case split_key key of (row, col) \<Rightarrow> (row, col, v)) es2)\<rparr>"
proof -
  have inner: "foldl (\<lambda>result (key2, value2). case split_key key2 of (row, j) \<Rightarrow>
                     if strict_eq k row
                     then setElement result i j
                            (val_add (getElement result i j) (val_mul value1 value2))
                     else result) m es2
    = m\<lparr>elements := foldl (\<lambda>el (row, j, v2).
                       if strict_eq k row
                       then store el (key_of i j) (val_add (fetch el (key_of i j)) (val_mul value1 v2))
                       else el)
         (elements m) (map (\<lambda>(key, v). case split_key key of (row, col) \<Rightarrow> (row, col, v)) es2)\<rparr>"
    for i k value1 m
    by (induction es2 arbitrary: m)
       (simp_all add: setElement_store getElement_fetch split: prod.splits)
  show ?thesis
    by (induction es1 arbitrary: m)
       (simp_all add: combine_products_def inner split: prod.splits)
qed

lemma combine2_loop_kf:
  "getKey m = kf \<Longrightarrow>
   foldl (\<lambda>result (row, col, v). set_entry result row col (f (get result row col) v)) m ts
   = m\<lparr>elements := combine kf f (elements m) ts\<rparr>"
proof (induction ts arbitrary: m)
  case Nil
  then show ?case by (simp add: combine_def)
next
  case (Cons t ts)
  obtain a b c where t: "t = (a, b, c)" by (cases t)
  let ?m' = "set_entry m a b (f (get m a b) c)"
  have m': "?m' = m\<lparr>elements := store (elements m) (kf a b) (f (fetch (elements m) (kf a b)) c)\<rparr>"
    using Cons.prems by (simp add: set_entry_store get_fetch)
  have "getKey ?m' = kf"
    using Cons.prems by (simp add: m' getKey_update)
  from Cons.IH[OF this] show ?case
    by (simp add: t m' combine_def)
qed

lemma copy2_loop_kf:
  "getKey m = kf \<Longrightarrow>
   foldl (\<lambda>result (row, col, v). set_entry result row col v) m ts
   = m\<lparr>elements := foldl (\<lambda>el (row, col, v). store el (kf row col) v) (elements m) ts\<rparr>"
proof (induction ts arbitrary: m)
  case Nil
  then show ?case by simp
next
  case (Cons t ts)
  obtain a b c where t: "t = (a, b, c)" by (cases t)
  let ?m' = "set_entry m a b c"
  have m': "?m' = m\<lparr>elements := store (elements m) (kf a b) c\<rparr>"
    using Cons.prems by (simp add: set_entry_store)
  have "getKey ?m' = kf"
    using Cons.prems by (simp add: m' getKey_update)
  from Cons.IH[OF this] show ?case
    by (simp add: t m')
qed

lemma multiply2_inner_kf:
  "getKey m = kf \<Longrightarrow>
   foldl (\<lambda>result (row, j, value2).
            if strict_eq k row
            then set_entry result i j (val_add (get result i j) (val_mul value1 value2))
            else result) m us
   = m\<lparr>elements := foldl (\<lambda>el (row, j, v2).
                              if strict_eq k row
                              then store el (kf i j) (val_add (fetch el (kf i j)) (val_mul value1 v2))
                              else el)
                            (elements m) us\<rparr>"
proof (induction us arbitrary: m)
  case Nil
  then show ?case by simp
next
  case (Cons u us)
  obtain a b c where u: "u = (a, b, c)" by (cases u)
  let ?m' = "if strict_eq k a
             then set_entry m i b (val_add (get m i b) (val_mul value1 c)) else m"
  have m': "?m' = m\<lparr>elements :=
               (if strict_eq k a
                then store (elements m) (kf i b)
                       (val_add (fetch (elements m) (kf i b)) (val_mul value1 c))
                else elements m)\<rparr>"
    using Cons.prems by (simp add: set_entry_store get_fetch)
  have "getKey ?m' = kf"
    using Cons.prems by (simp only: m' getKey_update)
  from Cons.IH[OF this] show ?case
    unfolding u by (simp only: foldl.simps prod.case m') (simp split: if_splits)
qed

lemma multiply2_loop_kf:
  "getKey m = kf \<Longrightarrow>
   foldl (\<lambda>result (i, k, value1).
            foldl (\<lambda>result (row, j, value2).
                     if strict_eq k row
                     then set_entry result i j (val_add (get result i j) (val_mul value1 value2))
                     else result) result us) m ts
   = m\<lparr>elements := combine_products kf (elements m) ts us\<rparr>"
proof (induction ts arbitrary: m)
  case Nil
  then show ?case by (simp add: combine_products_def)
next
  case (Cons t ts)
  obtain a b c where t: "t = (a, b, c)" by (cases t)
  let ?m' = "foldl (\<lambda>result (row, j, value2).
                     if strict_eq b row
                     then set_entry result a j (val_add (get result a j) (val_mul c value2))
                     else result) m us"
  have m': "?m' = m\<lparr>elements := foldl (\<lambda>el (row, j, v2).
                              if strict_eq b row
                              then store el (kf a j) (val_add (fetch el (kf a j)) (val_mul c v2))
                              else el)
                            (elements m) us\<rparr>"
    by (rule multiply2_inner_kf[OF Cons.prems])
  have "getKey ?m' = kf"
    using Cons.prems by (simp only: m' getKey_update)
  from Cons.IH[OF this] show ?case
    unfolding t by (simp only: foldl.simps prod.case m' combine_products_def) simp
qed

section \<open>Claims about single reads and writes\<close>

text \<open>
  C5 (as amended). Every sequence of set operations keeps the zero-elision invariant, in
  both programs: on a matrix built from the empty one by any sequence of set calls,
  set(r, c, v) with v not 0 leaves v stored under the key of (r, c), whatever was stored
  there, and get(r, c) returns v (but 0 for v = \<open>NaN\<close>, which \<open>|| 0\<close> takes to 0);
  set(r, c, 0) leaves no entry under the key of (r, c) and get(r, c) returns 0; there is
  one entry per key and none has the value 0; after set(r, c, 5) and then set(r, c, 0),
  get(r, c) returns 0, and the entry count is the count before the two calls when nothing
  was stored at (r, c) before them, and one less when something was.
\<close>

theorem set_zero_elision:
  assumes "m = setElements (new_matrix R C) ops"
      and "m2 = set_entries (new_matrix R C) ops"
  shows "(v \<noteq> Val 0 \<longrightarrow> Map_get (elements (setElement m r c v)) (key_of r c) = Some v)
       \<and> (v \<noteq> Val 0 \<longrightarrow> getElement (setElement m r c v) r c = (if v = VNaN then Val 0 else v))
       \<and> getElement (setElement m r c (Val 0)) r c = Val 0
       \<and> key_of r c \<notin> fst ` set (elements (setElement m r c (Val 0)))
       \<and> distinct (map fst (elements m)) \<and> Val 0 \<notin> snd ` set (elements m)
       \<and> getElement (setElement (setElement m r c (Val 5)) r c (Val 0)) r c = Val 0
       \<and> size_of (setElement (setElement m r c (Val 5)) r c (Val 0)) =
           (if Map_get (elements m) (key_of r c) = None then size_of m else size_of m - 1)
       \<and> (v \<noteq> Val 0 \<longrightarrow> Map_get (elements (set_entry m2 r c v)) (getKey m2 r c) = Some v)
       \<and> (v \<noteq> Val 0 \<longrightarrow> get (set_entry m2 r c v) r c = (if v = VNaN then Val 0 else v))
       \<and> get (set_entry m2 r c (Val 0)) r c = Val 0
       \<and> getKey m2 r c \<notin> fst ` set (elements (set_entry m2 r c (Val 0)))
       \<and> distinct (map fst (elements m2)) \<and> Val 0 \<notin> snd ` set (elements m2)
       \<and> get (set_entry (set_entry m2 r c (Val 5)) r c (Val 0)) r c = Val 0
       \<and> size_of (set_entry (set_entry m2 r c (Val 5)) r c (Val 0)) =
           (if Map_get (elements m2) (getKey m2 r c) = None then size_of m2 else size_of m2 - 1)"
proof -
  have e: "elided (elements m)"
    unfolding assms by (rule elided_setElements) (simp add: new_matrix_def elided_Nil)
  have e2: "elided (elements m2)"
    unfolding assms by (rule elided_set_entries) (simp add: new_matrix_def elided_Nil)
  have k: "getKey (m2\<lparr>elements := x\<rparr>) = getKey m2" for x
    by (rule getKey_cong) simp
  have z: "(0::jsval) = Val 0" "Val 5 \<noteq> (0::jsval)"
    by (simp_all add: zero_jsval_def)
  have a: "key_of r c \<notin> fst ` set (elements (setElement m r c (Val 0)))"
    by (simp add: setElement_store key_iff_map_of map_of_store z[symmetric])
  have a2: "getKey m2 r c \<notin> fst ` set (elements (set_entry m2 r c (Val 0)))"
    by (simp add: set_entry_store key_iff_map_of map_of_store z[symmetric])
  have s: "size_of (setElement (setElement m r c (Val 5)) r c (Val 0)) =
           (if Map_get (elements m) (key_of r c) = None then size_of m else size_of m - 1)"
    using z(2)
    by (simp add: size_of_def setElement_store Map_get_def z(1)[symmetric]
        length_store[OF elided_store[OF e]] length_store[OF e] map_of_store)
  have s2: "size_of (set_entry (set_entry m2 r c (Val 5)) r c (Val 0)) =
           (if Map_get (elements m2) (getKey m2 r c) = None then size_of m2 else size_of m2 - 1)"
    using z(2)
    by (simp add: size_of_def set_entry_store k Map_get_def z(1)[symmetric]
        length_store[OF elided_store[OF e2]] length_store[OF e2] map_of_store)
  have g: "getElement (setElement x r c v) r c = or_zero (Some v)"
          "get (set_entry y r c v) r c = or_zero (Some v)" for x y v
    by (simp_all add: getElement_fetch setElement_store get_fetch set_entry_store getKey_update
        fetch_value_at value_at_store)
  have o: "or_zero (Some v) = (if v = VNaN then Val 0 else v)"
    by (cases v) simp_all
  have g1: "v \<noteq> Val 0 \<longrightarrow> getElement (setElement m r c v) r c = (if v = VNaN then Val 0 else v)"
           "v \<noteq> Val 0 \<longrightarrow> get (set_entry m2 r c v) r c = (if v = VNaN then Val 0 else v)"
    by (simp_all only: g o) simp_all
  have g0: "getElement (setElement m r c (Val 0)) r c = Val 0"
           "get (set_entry m2 r c (Val 0)) r c = Val 0"
           "getElement (setElement (setElement m r c (Val 5)) r c (Val 0)) r c = Val 0"
           "get (set_entry (set_entry m2 r c (Val 5)) r c (Val 0)) r c = Val 0"
    by (simp_all only: g) simp_all
  have st: "v \<noteq> Val 0 \<longrightarrow> Map_get (elements (setElement m r c v)) (key_of r c) = Some v"
           "v \<noteq> Val 0 \<longrightarrow> Map_get (elements (set_entry m2 r c v)) (getKey m2 r c) = Some v"
    by (simp_all add: Map_get_def setElement_store set_entry_store k map_of_store z(1))
  from e e2 have d: "distinct (map fst (elements m))" "Val 0 \<notin> snd ` set (elements m)"
    "distinct (map fst (elements m2))" "Val 0 \<notin> snd ` set (elements m2)"
    by (simp_all add: elided_def z(1))
  show ?thesis
    by (intro conjI) (fact a a2 s s2 st g1 g0 d)+
qed

theorem set_zero_elision_witness:
  "getElement (setElement (setElements (new_matrix (Fin 2) (Fin 2)) [(Fin 0, Fin 1, Val 3)])
      (Fin 0) (Fin 1) (Val 9)) (Fin 0) (Fin 1) = Val 9
   \<and> size_of (setElement (setElement (setElements (new_matrix (Fin 2) (Fin 2))
        [(Fin 0, Fin 1, Val 3)]) (Fin 1) (Fin 1) (Val 5)) (Fin 1) (Fin 1) (Val 0)) = 1
   \<and> get (set_entry (set_entries (new_matrix (Fin 2) (Fin 2)) [(Fin 0, Fin 1, Val 3)])
      (Fin 0) (Fin 1) (Val 9)) (Fin 0) (Fin 1) = Val 9
   \<and> size_of (set_entry (set_entry (set_entries (new_matrix (Fin 2) (Fin 2))
        [(Fin 0, Fin 1, Val 3)]) (Fin 0) (Fin 1) (Val 5)) (Fin 0) (Fin 1) (Val 0)) = 0"
proof -
  let ?m = "setElements (new_matrix (Fin 2) (Fin 2)) [(Fin 0, Fin 1, Val 3)]"
  let ?m2 = "set_entries (new_matrix (Fin 2) (Fin 2)) [(Fin 0, Fin 1, Val 3)]"
  have g: "Map_get (elements ?m) (key_of (Fin 1) (Fin 1)) = None" "size_of ?m = 1"
    by code_simp+
  have g2: "Map_get (elements ?m2) (getKey ?m2 (Fin 0) (Fin 1)) = Some (Val 3)" "size_of ?m2 = 1"
    by code_simp+
  have n: "Val 9 \<noteq> Val 0" "Val 9 \<noteq> VNaN" by simp_all
  note t = set_zero_elision[OF refl refl, of "Val 9" "Fin 2" "Fin 2" "[(Fin 0, Fin 1, Val 3)]"]
  from t[of "Fin 0" "Fin 1"] n
  have "getElement (setElement ?m (Fin 0) (Fin 1) (Val 9)) (Fin 0) (Fin 1) = Val 9"
       "get (set_entry ?m2 (Fin 0) (Fin 1) (Val 9)) (Fin 0) (Fin 1) = Val 9"
       "size_of (set_entry (set_entry ?m2 (Fin 0) (Fin 1) (Val 5)) (Fin 0) (Fin 1) (Val 0)) = 0"
    using g2 by simp_all
  moreover from t[of "Fin 1" "Fin 1"]
  have "size_of (setElement (setElement ?m (Fin 1) (Fin 1) (Val 5)) (Fin 1) (Fin 1) (Val 0)) = 1"
    using g by simp
  ultimately show ?thesis by simp
qed

text \<open>
  C5 as stated fails where (r, c) held an entry before the two calls: the count goes from
  1 to 0 on the 1 x 1 matrix holding 3 at (0, 0).
\<close>

theorem set_then_clear_size_counterexample:
  "size_of (setElement (setElement (setElement (new_matrix (Fin 1) (Fin 1)) (Fin 0) (Fin 0) (Val 3))
      (Fin 0) (Fin 0) (Val 5)) (Fin 0) (Fin 0) (Val 0))
   \<noteq> size_of (setElement (new_matrix (Fin 1) (Fin 1)) (Fin 0) (Fin 0) (Val 3))"
  by code_simp

text \<open>
  C6. In \<open>src/unnamed/part_000\<close> a read outside the declared columns is not 0:
  on a 2 x 2 matrix, \<open>get(0, 2)\<close> computes the key \<open>0 * 2 + 2\<close>, which is the key of
  (1, 0), and returns the 7 stored there. The same read in \<open>src/index.js\<close> returns 0.
\<close>

theorem get_out_of_range_aliases:
  "get (set_entry (new_matrix (Fin 2) (Fin 2)) (Fin 1) (Fin 0) (Val 7)) (Fin 0) (Fin 2) = Val 7
   \<and> getElement (setElement (new_matrix (Fin 2) (Fin 2)) (Fin 1) (Fin 0) (Val 7)) (Fin 0) (Fin 2)
       = Val 0"
  by code_simp

section \<open>Claims about dimension checks\<close>

text \<open>
  C3 as stated fails: neither program checks the operands' dimensions in add or subtract
  (the check is commented out in \<open>src/index.js\<close> and absent from
  \<open>src/unnamed/part_000\<close>). Given a 1 x 1 and a 2 x 2 matrix, all four functions
  return a matrix.
\<close>

theorem add_mismatch_counterexample:
  "rows \<lparr>rows = Fin 1, cols = Fin 1, elements = [(''0,0'', Val 1)]\<rparr>
     \<noteq> rows \<lparr>rows = Fin 2, cols = Fin 2, elements = [(''1,1'', Val 1)]\<rparr>
   \<and> add \<lparr>rows = Fin 1, cols = Fin 1, elements = [(''0,0'', Val 1)]\<rparr>
          \<lparr>rows = Fin 2, cols = Fin 2, elements = [(''1,1'', Val 1)]\<rparr>
       = \<lparr>rows = Fin 1, cols = Fin 1, elements = [(''0,0'', Val 1), (''1,1'', Val 1)]\<rparr>
   \<and> subtract \<lparr>rows = Fin 1, cols = Fin 1, elements = [(''0,0'', Val 1)]\<rparr>
          \<lparr>rows = Fin 2, cols = Fin 2, elements = [(''1,1'', Val 1)]\<rparr>
       = \<lparr>rows = Fin 1, cols = Fin 1, elements = [(''0,0'', Val 1), (''1,1'', Val (- 1))]\<rparr>
   \<and> add2 \<lparr>rows = Fin 1, cols = Fin 1, elements = [(Fin 0, Val 1)]\<rparr>
           \<lparr>rows = Fin 2, cols = Fin 2, elements = [(Fin 3, Val 1)]\<rparr>
       = \<lparr>rows = Fin 1, cols = Fin 1, elements = [(Fin 0, Val 1), (Fin 2, Val 1)]\<rparr>
   \<and> subtract2 \<lparr>rows = Fin 1, cols = Fin 1, elements = [(Fin 0, Val 1)]\<rparr>
           \<lparr>rows = Fin 2, cols = Fin 2, elements = [(Fin 3, Val 1)]\<rparr>
       = \<lparr>rows = Fin 1, cols = Fin 1, elements = [(Fin 0, Val 1), (Fin 2, Val (- 1))]\<rparr>"
  by code_simp

text \<open>
  C3 (as amended). add(A, B) and subtract(A, B) check no dimension and never fail: for all
  matrices A and B, of matching dimensions or not, they return a matrix with the declared
  dimensions of A.
\<close>

theorem add_subtract_unchecked:
  "rows (add A B) = rows A \<and> cols (add A B) = cols A
   \<and> rows (subtract A B) = rows A \<and> cols (subtract A B) = cols A
   \<and> rows (add2 A2 B2) = rows A2 \<and> cols (add2 A2 B2) = cols A2
   \<and> rows (subtract2 A2 B2) = rows A2 \<and> cols (subtract2 A2 B2) = cols A2"
  by (simp add: add_def subtract_def add2_def subtract2_def combine_loop[of val_add]
      combine_loop[of val_sub] copy_loop combine2_loop_kf[OF refl, where f = val_add]
      combine2_loop_kf[OF refl, where f = val_sub] copy2_loop_kf[OF refl] new_matrix_def)

text \<open>
  C4. For matrices A and B with A.cols different from B.rows, multiply(A, B) throws the
  dimension error of the program; the call returns no matrix, allocates none, and leaves
  the heap, so both operands, as it found them.
\<close>

theorem multiply_incompatible:
  assumes "a < length heap" and "b < length heap"
      and "a2 < length heap2" and "b2 < length heap2"
  shows "(cols (heap ! a) \<noteq> rows (heap ! b) \<longrightarrow>
            multiply (heap ! a) (heap ! b) = Inl Incompatible
          \<and> multiply_call heap a b = (Inl Incompatible, heap))
       \<and> (cols (heap2 ! a2) \<noteq> rows (heap2 ! b2) \<longrightarrow>
            multiply2 (heap2 ! a2) (heap2 ! b2) = Inl Incompatible
          \<and> multiply2_call heap2 a2 b2 = (Inl Incompatible, heap2))
       \<and> DimensionMismatch Incompatible"
  by (simp add: multiply_call_def multiply2_call_def multiply_def multiply2_def
      DimensionMismatch_def strict_eq_def)

theorem multiply_incompatible_witness:
  "multiply_call [new_matrix (Fin 2) (Fin 3), new_matrix (Fin 2) (Fin 2)] 0 1
     = (Inl Incompatible, [new_matrix (Fin 2) (Fin 3), new_matrix (Fin 2) (Fin 2)])
   \<and> multiply2_call [new_matrix (Fin 2) (Fin 3), new_matrix (Fin 2) (Fin 2)] 0 1
     = (Inl Incompatible, [new_matrix (Fin 2) (Fin 3), new_matrix (Fin 2) (Fin 2)])"
  using multiply_incompatible[of 0 "[new_matrix (Fin 2) (Fin 3), new_matrix (Fin 2) (Fin 2)]" 1
          0 "[new_matrix (Fin 2) (Fin 3), new_matrix (Fin 2) (Fin 2)]" 1]
  by (simp add: new_matrix_def)

section \<open>The two key schemes\<close>

text \<open>
  The string key of \<open>src/index.js\<close> decodes to the coordinates it was written from, and
  the numeric key of \<open>src/unnamed/part_000\<close> does so for a column below the column
  count, as long as no number involved exceeds \<open>2^53\<close>.
\<close>

definition exact_num :: "jsnum \<Rightarrow> bool" where
  "exact_num x = (case x of Fin n \<Rightarrow> int n \<le> 9007199254740992 | _ \<Rightarrow> True)"

lemma of_char_digit_char: "d < 10 \<Longrightarrow> (of_char (digit_char d) :: nat) = 48 + d"
  by (simp add: digit_char_def)

lemma is_digit_digit_char: "d < 10 \<Longrightarrow> is_digit_char (digit_char d)"
  by (simp add: is_digit_char_def of_char_digit_char)

lemma dec_digits: "list_all is_digit_char (dec n)"
proof (induction n rule: dec.induct)
  case (1 n)
  then show ?case
    by (subst dec.simps) (simp add: is_digit_digit_char)
qed

lemma digits_value_snoc: "digits_value (s @ [c]) = 10 * digits_value s + ((of_char c :: nat) - 48)"
  by (simp add: digits_value_def)

lemma digits_value_dec: "digits_value (dec n) = n"
proof (induction n rule: dec.induct)
  case (1 n)
  show ?case
  proof (cases "n < 10")
    case True
    then show ?thesis
      by (subst dec.simps) (simp add: digits_value_def of_char_digit_char)
  next
    case False
    with 1 show ?thesis
      by (subst dec.simps) (simp add: digits_value_snoc of_char_digit_char)
  qed
qed

lemma comma_not_digit: "\<not> is_digit_char CHR '',''"
  by (simp add: is_digit_char_def)

lemma Number_String: "exact_num x \<Longrightarrow> Number (String x) = x"
proof (cases x)
  case (Fin n)
  assume "exact_num x"
  with Fin have "int n \<le> 9007199254740992" by (simp add: exact_num_def)
  with Fin show ?thesis
    by (simp add: Number_def dec_digits digits_value_dec to_num_exact)
next
  case Infinity
  then show ?thesis by (simp add: Number_def is_digit_char_def)
next
  case NaN
  then show ?thesis by (simp add: Number_def is_digit_char_def exponent_value_def)
qed

lemma comma_notin_String: "exact_num x \<Longrightarrow> CHR '','' \<notin> set (String x)"
proof (cases x)
  case (Fin n)
  assume "exact_num x"
  with Fin have n: "int n \<le> 9007199254740992" by (simp add: exact_num_def)
  have "list_all is_digit_char (dec n)" by (rule dec_digits)
  then have "CHR '','' \<notin> set (dec n)"
    using comma_not_digit by (auto simp: list_all_iff)
  with Fin n show ?thesis by simp
qed simp_all

lemma split_no_sep: "d \<notin> set s \<Longrightarrow> split d s = [s]"
  by (induction s) auto

lemma split_sep: "d \<notin> set a \<Longrightarrow> split d (a @ d # b) = a # split d b"
  by (induction a) auto

lemma split_key_key_of: "exact_num r \<Longrightarrow> exact_num c \<Longrightarrow> split_key (key_of r c) = (r, c)"
  by (simp add: split_key_def key_of_def split_sep split_no_sep comma_notin_String Number_String)

lemma key_of_inj:
  "exact_num r \<Longrightarrow> exact_num c \<Longrightarrow> exact_num r' \<Longrightarrow> exact_num c' \<Longrightarrow>
   key_of r c = key_of r' c' \<longleftrightarrow> r = r' \<and> c = c'"
  by (metis split_key_key_of prod.inject)

section \<open>What the loops compute when no operation rounds\<close>

text \<open>
  The loops in exact integer arithmetic, on a store of integers: \<open>accum\<close> adds to the
  value under one key, \<open>accum_all\<close> is the second loop of \<open>add\<close> (\<open>s = 1\<close>) and of
  \<open>subtract\<close> (\<open>s = - 1\<close>), \<open>accum_products\<close> the nested loops of \<open>multiply\<close>. The
  section after this one shows that the programs compute exactly these as long as the
  numbers stay within \<open>2^53\<close>.
\<close>

definition accum :: "('k \<times> int) list \<Rightarrow> 'k \<Rightarrow> int \<Rightarrow> ('k \<times> int) list" where
  "accum el k d = store el k (value_at el k + d)"

definition accum_all ::
  "('a \<Rightarrow> 'b \<Rightarrow> 'k) \<Rightarrow> int \<Rightarrow> ('k \<times> int) list \<Rightarrow> ('a \<times> 'b \<times> int) list \<Rightarrow> ('k \<times> int) list" where
  "accum_all kf s el ts = foldl (\<lambda>el (r, c, v). accum el (kf r c) (s * v)) el ts"

definition row_products ::
  "(jsnum \<Rightarrow> jsnum \<Rightarrow> 'k) \<Rightarrow> jsnum \<Rightarrow> jsnum \<Rightarrow> int \<Rightarrow> ('k \<times> int) list \<Rightarrow>
   (jsnum \<times> jsnum \<times> int) list \<Rightarrow> ('k \<times> int) list" where
  "row_products kf i k v1 el us =
     foldl (\<lambda>el (row, j, v2). if strict_eq k row then accum el (kf i j) (v1 * v2) else el) el us"

definition accum_products ::
  "(jsnum \<Rightarrow> jsnum \<Rightarrow> 'k) \<Rightarrow> ('k \<times> int) list \<Rightarrow> (jsnum \<times> jsnum \<times> int) list \<Rightarrow>
   (jsnum \<times> jsnum \<times> int) list \<Rightarrow> ('k \<times> int) list" where
  "accum_products kf el ts us = foldl (\<lambda>el (i, k, v1). row_products kf i k v1 el us) el ts"

lemma value_at_Nil: "value_at [] k = 0"
  by (simp add: value_at_def)

lemma value_at_accum: "value_at (accum el k d) k' = value_at el k' + (if k' = k then d else 0)"
  by (simp add: accum_def value_at_store)

lemma elided_accum: "elided el \<Longrightarrow> elided (accum el k d)"
  by (simp add: accum_def elided_store)

lemma accum_all_Cons:
  "accum_all kf s el ((r, c, v) # ts) = accum_all kf s (accum el (kf r c) (s * v)) ts"
  by (simp add: accum_all_def)

lemma value_at_accum_all:
  "value_at (accum_all kf s el ts) k'
   = value_at el k' + s * sum_list (map (\<lambda>(r, c, v). if kf r c = k' then v else 0) ts)"
proof (induction ts arbitrary: el)
  case Nil
  then show ?case by (simp add: accum_all_def)
next
  case (Cons t ts)
  obtain r c v where t: "t = (r, c, v)" by (cases t)
  show ?case
    unfolding t accum_all_Cons
    by (simp add: Cons.IH value_at_accum algebra_simps)
qed

lemma elided_accum_all: "elided el \<Longrightarrow> elided (accum_all kf s el ts)"
  unfolding accum_all_def
  by (induction ts arbitrary: el) (auto simp: elided_accum)

lemma row_products_Cons:
  "row_products kf i k v1 el ((row, j, v2) # us)
   = row_products kf i k v1 (if strict_eq k row then accum el (kf i j) (v1 * v2) else el) us"
  by (simp add: row_products_def)

lemma value_at_row_products:
  "value_at (row_products kf i k v1 el us) k'
   = value_at el k'
     + sum_list (map (\<lambda>(row, j, v2). if strict_eq k row \<and> kf i j = k' then v1 * v2 else 0) us)"
proof (induction us arbitrary: el)
  case Nil
  then show ?case by (simp add: row_products_def)
next
  case (Cons u us)
  obtain row j v2 where u: "u = (row, j, v2)" by (cases u)
  show ?case
    unfolding u row_products_Cons
    by (simp add: Cons.IH value_at_accum)
qed

lemma elided_row_products: "elided el \<Longrightarrow> elided (row_products kf i k v1 el us)"
  unfolding row_products_def
  by (induction us arbitrary: el) (auto simp: elided_accum)

lemma accum_products_Cons:
  "accum_products kf el ((i, k, v1) # ts) us
   = accum_products kf (row_products kf i k v1 el us) ts us"
  by (simp add: accum_products_def)

lemma value_at_accum_products:
  "value_at (accum_products kf el ts us) k'
   = value_at el k'
     + sum_list (map (\<lambda>(i, k, v1).
         sum_list (map (\<lambda>(row, j, v2).
           if strict_eq k row \<and> kf i j = k' then v1 * v2 else 0) us)) ts)"
proof (induction ts arbitrary: el)
  case Nil
  then show ?case by (simp add: accum_products_def)
next
  case (Cons t ts)
  obtain i k v1 where t: "t = (i, k, v1)" by (cases t)
  show ?case
    unfolding t accum_products_Cons
    by (simp add: Cons.IH value_at_row_products)
qed

lemma elided_accum_products: "elided el \<Longrightarrow> elided (accum_products kf el ts us)"
proof (induction ts arbitrary: el)
  case Nil
  then show ?case by (simp add: accum_products_def)
next
  case (Cons t ts)
  obtain i k v1 where t: "t = (i, k, v1)" by (cases t)
  show ?case
    unfolding t accum_products_Cons
    by (rule Cons.IH) (rule elided_row_products[OF Cons.prems])
qed

lemma sum_list_pick:
  "distinct (map fst el) \<Longrightarrow>
   sum_list (map (\<lambda>(k, v). if k = k' then v else 0) el) = (value_at el k' :: int)"
proof (induction el)
  case Nil
  then show ?case by (simp add: value_at_def)
next
  case (Cons p el)
  obtain k v where p: "p = (k, v)" by (cases p)
  from Cons.prems have d: "distinct (map fst el)" and n: "k \<notin> fst ` set el"
    by (simp_all add: p)
  show ?case
  proof (cases "k = k'")
    case True
    with n have "map_of el k' = None"
      by (simp add: map_of_eq_None_iff)
    then have "value_at el k' = 0" by (simp add: value_at_def)
    with True show ?thesis
      using Cons.IH[OF d] by (simp add: p value_at_def)
  next
    case False
    then show ?thesis
      using Cons.IH[OF d] by (simp add: p value_at_def)
  qed
qed

section \<open>Stores whose keys encode coordinates in range\<close>

text \<open>
  \<open>coded kf dcd R C el\<close>: every key of \<open>el\<close> is \<open>kf i j\<close> for a row \<open>i < R\<close> and a column
  \<open>j < C\<close>, and the decoding \<open>dcd\<close> of the program gives these coordinates back. The
  lemmas hold for both key schemes; \<open>decoded\<close> is the list of triples a loop over
  the store sees.
\<close>

definition decoded :: "('k \<Rightarrow> jsnum \<times> jsnum) \<Rightarrow> ('k \<times> 'v) list \<Rightarrow> (jsnum \<times> jsnum \<times> 'v) list" where
  "decoded dcd el = map (\<lambda>(key, v). case dcd key of (row, col) \<Rightarrow> (row, col, v)) el"

definition coded ::
  "(nat \<Rightarrow> nat \<Rightarrow> 'k) \<Rightarrow> ('k \<Rightarrow> jsnum \<times> jsnum) \<Rightarrow> nat \<Rightarrow> nat \<Rightarrow> ('k \<times> 'v) list \<Rightarrow> bool" where
  "coded kf dcd R C el =
     (\<forall>key \<in> fst ` set el. \<exists>i<R. \<exists>j<C. key = kf i j \<and> dcd key = (Fin i, Fin j))"

definition separates :: "(nat \<Rightarrow> nat \<Rightarrow> 'k) \<Rightarrow> nat \<Rightarrow> nat \<Rightarrow> bool" where
  "separates kf R C =
     (\<forall>i j i' j'. i < R \<longrightarrow> j < C \<longrightarrow> i' < R \<longrightarrow> j' < C \<longrightarrow> kf i j = kf i' j' \<longrightarrow> i = i' \<and> j = j')"

definition agrees :: "(jsnum \<Rightarrow> jsnum \<Rightarrow> 'k) \<Rightarrow> (nat \<Rightarrow> nat \<Rightarrow> 'k) \<Rightarrow> nat \<Rightarrow> nat \<Rightarrow> bool" where
  "agrees kf' kf R C = (\<forall>i j. i < R \<longrightarrow> j < C \<longrightarrow> kf' (Fin i) (Fin j) = kf i j)"

definition decodes :: "(nat \<Rightarrow> nat \<Rightarrow> 'k) \<Rightarrow> ('k \<Rightarrow> jsnum \<times> jsnum) \<Rightarrow> nat \<Rightarrow> nat \<Rightarrow> bool" where
  "decodes kf dcd R C = (\<forall>i j. i < R \<longrightarrow> j < C \<longrightarrow> dcd (kf i j) = (Fin i, Fin j))"

definition fin_triples :: "nat \<Rightarrow> nat \<Rightarrow> (jsnum \<times> jsnum \<times> 'v) list \<Rightarrow> bool" where
  "fin_triples R C ts = (\<forall>(r, c, v) \<in> set ts. \<exists>i<R. \<exists>j<C. r = Fin i \<and> c = Fin j)"

definition tval :: "(jsnum \<times> jsnum \<times> int) list \<Rightarrow> nat \<Rightarrow> nat \<Rightarrow> int" where
  "tval ts i j = sum_list (map (\<lambda>(r, c, v). if r = Fin i \<and> c = Fin j then v else 0) ts)"

lemma sum_list_map_cong:
  "(\<And>x. x \<in> set xs \<Longrightarrow> f x = g x) \<Longrightarrow> sum_list (map f xs) = sum_list (map g xs)"
  by (induction xs) auto

lemma sum_list_decoded:
  "sum_list (map f (decoded dcd el))
   = sum_list (map (\<lambda>(key, v). f (fst (dcd key), snd (dcd key), v)) el)"
  by (induction el) (auto simp: decoded_def split: prod.splits)

lemma codedD:
  "coded kf dcd R C el \<Longrightarrow> (key, v) \<in> set el \<Longrightarrow>
   \<exists>i<R. \<exists>j<C. key = kf i j \<and> dcd key = (Fin i, Fin j)"
  unfolding coded_def by force

lemma coded_mono: "coded kf dcd R C el \<Longrightarrow> R \<le> R' \<Longrightarrow> coded kf dcd R' C el"
  unfolding coded_def by (meson less_le_trans)

lemma separates_mono: "separates kf R' C \<Longrightarrow> R \<le> R' \<Longrightarrow> separates kf R C"
  unfolding separates_def by (meson less_le_trans)

lemma agrees_mono: "agrees kf' kf R' C \<Longrightarrow> R \<le> R' \<Longrightarrow> agrees kf' kf R C"
  unfolding agrees_def by (meson less_le_trans)

lemma fin_triples_decoded: "coded kf dcd R C el \<Longrightarrow> fin_triples R C (decoded dcd el)"
  unfolding fin_triples_def decoded_def
  by (auto dest!: codedD)

lemma sum_keys_decoded:
  fixes el :: "('k \<times> int) list"
  assumes d: "distinct (map fst el)" and c: "coded kf dcd R C el" and a: "agrees kf' kf R C"
  shows "sum_list (map (\<lambda>(r, c, v). if kf' r c = k' then v else 0) (decoded dcd el))
         = value_at el k'"
proof -
  have "sum_list (map (\<lambda>(r, c, v). if kf' r c = k' then v else 0) (decoded dcd el))
        = sum_list (map (\<lambda>(key, v). if key = k' then v else 0) el)"
    unfolding sum_list_decoded
  proof (rule sum_list_map_cong)
    fix x assume x: "x \<in> set el"
    obtain key v where kv: "x = (key, v)" by (cases x)
    from codedD[OF c x[unfolded kv]] obtain i j
      where "i < R" "j < C" "key = kf i j" "dcd key = (Fin i, Fin j)" by blast
    with a show "(case x of (key, v) \<Rightarrow>
                    case (fst (dcd key), snd (dcd key), v) of
                      (r, c, v) \<Rightarrow> if kf' r c = k' then v else 0)
                 = (case x of (key, v) \<Rightarrow> if key = k' then v else 0)"
      by (simp add: kv agrees_def)
  qed
  with sum_list_pick[OF d] show ?thesis by simp
qed

lemma tval_decoded:
  assumes d: "distinct (map fst el)" and c: "coded kf dcd R C el" and s: "separates kf R C"
      and i: "i < R" and j: "j < C"
  shows "tval (decoded dcd el) i j = value_at el (kf i j)"
proof -
  have "tval (decoded dcd el) i j
        = sum_list (map (\<lambda>(key, v). if key = kf i j then v else 0) el)"
    unfolding tval_def sum_list_decoded
  proof (rule sum_list_map_cong)
    fix x assume x: "x \<in> set el"
    obtain key v where kv: "x = (key, v)" by (cases x)
    from codedD[OF c x[unfolded kv]] obtain i0 j0
      where *: "i0 < R" "j0 < C" "key = kf i0 j0" "dcd key = (Fin i0, Fin j0)" by blast
    from s i j * have "key = kf i j \<longleftrightarrow> i0 = i \<and> j0 = j"
      unfolding separates_def by blast
    with * show "(case x of (key, v) \<Rightarrow>
                    case (fst (dcd key), snd (dcd key), v) of
                      (r, c, v) \<Rightarrow> if r = Fin i \<and> c = Fin j then v else 0)
                 = (case x of (key, v) \<Rightarrow> if key = kf i j then v else 0)"
      by (simp add: kv)
  qed
  with sum_list_pick[OF d] show ?thesis by simp
qed

lemma set_decoded:
  assumes e: "elided el" and c: "coded kf dcd R C el" and s: "separates kf R C"
  shows "set (decoded dcd el)
         = {(Fin i, Fin j, v) | i j v. i < R \<and> j < C \<and> v \<noteq> 0 \<and> value_at el (kf i j) = v}"
    (is "?L = ?R")
proof (rule set_eqI)
  fix t :: "jsnum \<times> jsnum \<times> 'b"
  obtain r q v where t: "t = (r, q, v)" by (cases t)
  show "t \<in> ?L \<longleftrightarrow> t \<in> ?R"
  proof
    assume "t \<in> ?L"
    then obtain key where k: "(key, v) \<in> set el" and dk: "dcd key = (r, q)"
      by (auto simp: t decoded_def split: prod.splits)
    from codedD[OF c k] dk obtain i j
      where "i < R" "j < C" "key = kf i j" "r = Fin i" "q = Fin j" by auto
    moreover from elided_mem[OF e, of key v] k have "value_at el key = v" "v \<noteq> 0"
      by simp_all
    ultimately show "t \<in> ?R" by (auto simp: t)
  next
    assume "t \<in> ?R"
    then obtain i j where ij: "r = Fin i" "q = Fin j" "i < R" "j < C" "v \<noteq> 0"
      "value_at el (kf i j) = v" by (auto simp: t)
    with elided_mem[OF e, of "kf i j" v] have k: "(kf i j, v) \<in> set el" by simp
    from codedD[OF c k] obtain i0 j0
      where *: "i0 < R" "j0 < C" "kf i j = kf i0 j0" "dcd (kf i j) = (Fin i0, Fin j0)" by blast
    with s ij have "i0 = i" "j0 = j" unfolding separates_def by blast+
    with * have "dcd (kf i j) = (r, q)" by (simp add: ij)
    with k show "t \<in> ?L"
      by (force simp: t decoded_def)
  qed
qed

lemma update_fresh: "k \<notin> fst ` set xs \<Longrightarrow> AList.update k v xs = xs @ [(k, v)]"
  by (induction xs) auto

lemma copy_identity:
  "distinct (map fst (xs @ el)) \<Longrightarrow>
   foldl (\<lambda>el (key, v). Map_set el key v) xs el = xs @ el"
proof (induction el arbitrary: xs)
  case Nil
  then show ?case by simp
next
  case (Cons p el)
  obtain k v where p: "p = (k, v)" by (cases p)
  from Cons.prems have f: "k \<notin> fst ` set xs" and d: "distinct (map fst ((xs @ [(k, v)]) @ el))"
    by (auto simp: p)
  from Cons.IH[OF d] f show ?case
    by (simp add: p Map_set_def update_fresh)
qed

lemma copy_decoded_identity:
  assumes "elided (xs @ el)" and "coded kf dcd R C el" and "agrees kf' kf R C"
  shows "foldl (\<lambda>el (r, c, v). store el (kf' r c) v) xs (decoded dcd el) = xs @ el"
  using assms
proof (induction el arbitrary: xs)
  case Nil
  then show ?case by (simp add: decoded_def)
next
  case (Cons p el)
  obtain k v where p: "p = (k, v)" by (cases p)
  from Cons.prems(1) have f: "k \<notin> fst ` set xs" and nz: "v \<noteq> 0"
    and e: "elided ((xs @ [(k, v)]) @ el)"
    by (auto simp: p elided_def)
  from Cons.prems(2) have c: "coded kf dcd R C el"
    by (simp add: coded_def)
  from codedD[OF Cons.prems(2), of k v] obtain i j
    where ij: "i < R" "j < C" "k = kf i j" "dcd k = (Fin i, Fin j)" by (auto simp: p)
  with Cons.prems(3) have kk: "kf' (Fin i) (Fin j) = k" by (simp add: agrees_def)
  have "store xs k v = xs @ [(k, v)]"
    using f nz by (simp add: store_def Map_set_def update_fresh)
  with Cons.IH[OF e c Cons.prems(3)] show ?case
    by (simp add: p decoded_def ij(4) kk)
qed

lemma value_at_nonzero_key: "value_at el k \<noteq> 0 \<Longrightarrow> k \<in> fst ` set el"
  by (cases "map_of el k") (auto simp: value_at_def dest: map_of_SomeD intro: rev_image_eqI)

lemma sum_nonzero: "(x::int) + s * y \<noteq> 0 \<Longrightarrow> x \<noteq> 0 \<or> y \<noteq> 0"
  by (cases "x = 0"; cases "y = 0"; simp)

lemma elided_distinct: "elided el \<Longrightarrow> distinct (map fst el)"
  by (simp add: elided_def)

lemma elided_set_eq:
  assumes "elided x" and "elided y" and "\<And>k. value_at x k = value_at y k"
  shows "set x = set y"
proof (rule set_eqI)
  fix p :: "'a \<times> 'b"
  obtain k v where p: "p = (k, v)" by (cases p)
  show "p \<in> set x \<longleftrightarrow> p \<in> set y"
    unfolding p elided_mem[OF assms(1)] elided_mem[OF assms(2)] assms(3) ..
qed

lemma coded_of_values:
  assumes e: "elided el" and ca: "coded kf dcd R C a" and cb: "coded kf dcd R C b"
      and v: "\<And>k. value_at el k \<noteq> 0 \<Longrightarrow> value_at a k \<noteq> 0 \<or> value_at b k \<noteq> 0"
  shows "coded kf dcd R C el"
  unfolding coded_def
proof
  fix key assume "key \<in> fst ` set el"
  with elided_key_iff[OF e] have "value_at el key \<noteq> 0" by simp
  from v[OF this] have "key \<in> fst ` set a \<or> key \<in> fst ` set b"
    using value_at_nonzero_key by metis
  with ca cb show "\<exists>i<R. \<exists>j<C. key = kf i j \<and> dcd key = (Fin i, Fin j)"
    unfolding coded_def by blast
qed

lemma value_accum_all_decoded:
  assumes "distinct (map fst b)" and "coded kf dcd R C b" and "agrees kf' kf R C"
  shows "value_at (accum_all kf' s a (decoded dcd b)) k = value_at a k + s * value_at b k"
  by (simp add: value_at_accum_all sum_keys_decoded[OF assms])

lemma combined_coded:
  assumes ea: "elided a" and eb: "elided b"
      and ca: "coded kf dcd R C a" and cb: "coded kf dcd R C b" and ag: "agrees kf' kf R C"
  shows "coded kf dcd R C (accum_all kf' s a (decoded dcd b))"
proof (rule coded_of_values[OF elided_accum_all[OF ea] ca cb])
  fix k
  assume "value_at (accum_all kf' s a (decoded dcd b)) k \<noteq> 0"
  then have "value_at a k + s * value_at b k \<noteq> 0"
    by (simp add: value_accum_all_decoded[OF elided_distinct[OF eb] cb ag])
  then show "value_at a k \<noteq> 0 \<or> value_at b k \<noteq> 0"
    by (rule sum_nonzero)
qed

lemma combined_entries:
  assumes ea: "elided a" and eb: "elided b"
      and ca: "coded kf dcd R C a" and cb: "coded kf dcd R C b"
      and ag: "agrees kf' kf R C" and sp: "separates kf R C"
  shows "set (decoded dcd (accum_all kf' s a (decoded dcd b)))
         = {(Fin i, Fin j, v) | i j v. i < R \<and> j < C
              \<and> (\<exists>w. (Fin i, Fin j, w) \<in> set (decoded dcd a) \<union> set (decoded dcd b))
              \<and> v = value_at a (kf i j) + s * value_at b (kf i j) \<and> v \<noteq> 0}"
    (is "set (decoded dcd ?el) = ?R")
proof -
  have e: "elided ?el" by (rule elided_accum_all[OF ea])
  have c: "coded kf dcd R C ?el" by (rule combined_coded[OF ea eb ca cb ag])
  have v: "value_at ?el k = value_at a k + s * value_at b k" for k
    by (rule value_accum_all_decoded[OF elided_distinct[OF eb] cb ag])
  show ?thesis
    unfolding set_decoded[OF e c sp] set_decoded[OF ea ca sp] set_decoded[OF eb cb sp] v
  proof (rule set_eqI)
    fix t :: "jsnum \<times> jsnum \<times> int"
    obtain r q x where t: "t = (r, q, x)" by (cases t)
    let ?va = "\<lambda>i j. value_at a (kf i j)" and ?vb = "\<lambda>i j. value_at b (kf i j)"
    have nz: "\<exists>w. w = ?va i j \<and> ?va i j \<noteq> 0 \<or> w = ?vb i j \<and> ?vb i j \<noteq> 0"
      if "?va i j + s * ?vb i j \<noteq> 0" for i j
      using sum_nonzero[OF that] by blast
    show "t \<in> {(Fin i, Fin j, v) | i j v. i < R \<and> j < C \<and> v \<noteq> 0 \<and> ?va i j + s * ?vb i j = v}
          \<longleftrightarrow> t \<in> {(Fin i, Fin j, v) | i j v. i < R \<and> j < C
                \<and> (\<exists>w. (Fin i, Fin j, w) \<in>
                   {(Fin i, Fin j, v) | i j v. i < R \<and> j < C \<and> v \<noteq> 0 \<and> ?va i j = v}
                   \<union> {(Fin i, Fin j, v) | i j v. i < R \<and> j < C \<and> v \<noteq> 0 \<and> ?vb i j = v})
                \<and> v = ?va i j + s * ?vb i j \<and> v \<noteq> 0}"
      unfolding t using nz by auto
  qed
qed

lemma set_decoded_cong: "set x = set y \<Longrightarrow> set (decoded dcd x) = set (decoded dcd y)"
  by (simp add: decoded_def)

lemma coded_store:
  assumes c: "coded kf dcd R C el" and i: "i < R" and j: "j < C"
      and d: "dcd (kf i j) = (Fin i, Fin j)"
  shows "coded kf dcd R C (store el (kf i j) v)"
  unfolding coded_def
proof
  fix key assume "key \<in> fst ` set (store el (kf i j) v)"
  then have "key = kf i j \<or> key \<in> fst ` set el"
    using set_update_subset[of "kf i j" v el] set_delete_subset[of "kf i j" el]
    by (auto simp: store_def Map_set_def Map_delete_def split: if_splits)
  with c i j d show "\<exists>i<R. \<exists>j<C. key = kf i j \<and> dcd key = (Fin i, Fin j)"
    unfolding coded_def by blast
qed

lemma distinct_coordinates:
  assumes d: "distinct (map fst el)" and c: "coded kf dcd R C el"
  shows "distinct (map (\<lambda>(r, c, v). (r, c)) (decoded dcd el))"
proof -
  have m: "map (\<lambda>(r, c, v). (r, c)) (decoded dcd el) = map dcd (map fst el)"
    by (simp add: decoded_def split: prod.splits)
  have "inj_on dcd (set (map fst el))"
  proof (rule inj_onI)
    fix x y assume x: "x \<in> set (map fst el)" and y: "y \<in> set (map fst el)"
      and e: "dcd x = dcd y"
    from c x obtain i j where xi: "x = kf i j" "dcd x = (Fin i, Fin j)"
      unfolding coded_def by auto
    from c y obtain i' j' where yi: "y = kf i' j'" "dcd y = (Fin i', Fin j')"
      unfolding coded_def by auto
    from e xi yi show "x = y" by simp
  qed
  with d have "distinct (map dcd (map fst el))"
    by (subst distinct_map) (rule conjI)
  then show ?thesis
    by (simp only: m)
qed

section \<open>The programs within the exact range\<close>

text \<open>
  \<open>vals el\<close> is the store of values that holds the integers of \<open>el\<close>. On such a store,
  and as long as every sum and product stays within \<open>2^53\<close> in magnitude, the loops of
  the programs compute what the loops in exact arithmetic compute.
\<close>

definition vals :: "('k \<times> int) list \<Rightarrow> ('k \<times> jsval) list" where
  "vals el = map (\<lambda>(k, v). (k, Val v)) el"

definition the_int :: "jsval \<Rightarrow> int" where
  "the_int v = (case v of Val x \<Rightarrow> x | _ \<Rightarrow> 0)"

definition ints :: "('k \<times> jsval) list \<Rightarrow> ('k \<times> int) list" where
  "ints el = map (\<lambda>(k, v). (k, the_int v)) el"

definition finite_values :: "('k \<times> jsval) list \<Rightarrow> bool" where
  "finite_values el =
     list_all (\<lambda>(key, v). case v of Val x \<Rightarrow> \<bar>x\<bar> \<le> 9007199254740992 | _ \<Rightarrow> False) el"

lemma the_int_Val: "the_int (Val x) = x"
  by (simp add: the_int_def)

lemma vals_ints: "finite_values el \<Longrightarrow> vals (ints el) = el"
  unfolding finite_values_def vals_def ints_def
  by (induction el) (auto simp: the_int_def split: jsval.splits)

lemma keys_vals: "map fst (vals el) = map fst el"
  by (simp add: vals_def case_prod_unfold)

lemma map_of_vals: "map_of (vals el) k = map_option Val (map_of el k)"
  by (induction el) (auto simp: vals_def)

lemma value_at_vals: "value_at (vals el) k = Val (value_at el k)"
  by (cases "map_of el k") (simp_all add: value_at_def map_of_vals zero_jsval_def)

lemma fetch_vals: "fetch (vals el) k = Val (value_at el k)"
  by (simp add: fetch_value_at value_at_vals)

lemma update_vals: "AList.update k (Val v) (vals el) = vals (AList.update k v el)"
  by (induction el) (auto simp: vals_def)

lemma delete_vals: "AList.delete k (vals el) = vals (AList.delete k el)"
  by (induction el) (auto simp: vals_def)

lemma store_vals: "store (vals el) k (Val v) = vals (store el k v)"
  by (simp add: store_def Map_set_def Map_delete_def update_vals delete_vals zero_jsval_def)

lemma elided_vals: "elided (vals el) \<longleftrightarrow> elided el"
proof -
  have "0 \<in> snd ` set (vals el) \<longleftrightarrow> 0 \<in> snd ` set el"
    by (force simp: vals_def zero_jsval_def image_iff)
  then show ?thesis
    by (simp add: elided_def keys_vals)
qed

lemma decoded_vals:
  "decoded dcd (vals el) = map (\<lambda>(r, c, v). (r, c, Val v)) (decoded dcd el)"
  by (simp add: decoded_def vals_def case_prod_unfold)

lemma coded_vals: "coded kf dcd R C (vals el) \<longleftrightarrow> coded kf dcd R C el"
proof -
  have "fst ` set (vals el) = fst ` set el"
    using keys_vals[of el] by (metis set_map)
  then show ?thesis by (simp add: coded_def)
qed

lemma finite_values_vals:
  assumes "elided el" and "\<And>k. \<bar>value_at el k\<bar> \<le> 9007199254740992"
  shows "finite_values (vals el)"
  unfolding finite_values_def list_all_iff
proof
  fix x assume "x \<in> set (vals el)"
  then obtain k v where x: "x = (k, Val v)" and m: "(k, v) \<in> set el"
    by (auto simp: vals_def)
  from elided_mem[OF assms(1), of k v] m have "value_at el k = v" by simp
  with assms(2)[of k] show "case x of (key, v) \<Rightarrow>
      (case v of Val x \<Rightarrow> \<bar>x\<bar> \<le> 9007199254740992 | _ \<Rightarrow> False)"
    by (simp add: x)
qed

lemma finite_values_bound:
  assumes "finite_values (vals el)"
  shows "\<bar>value_at el k\<bar> \<le> 9007199254740992"
proof (cases "map_of el k")
  case None
  then show ?thesis by (simp add: value_at_def)
next
  case (Some v)
  then have "(k, Val v) \<in> set (vals el)"
    by (auto simp: vals_def dest: map_of_SomeD)
  with assms Some show ?thesis
    by (auto simp: finite_values_def list_all_iff value_at_def)
qed

text \<open>
  The second loop of \<open>add\<close> and \<open>subtract\<close> writes every key at most once: it is exact
  when each sum (difference) it computes is within \<open>2^53\<close>.
\<close>

lemma combine_exact:
  assumes f: "\<And>x v. \<bar>x + s * v\<bar> \<le> 9007199254740992 \<Longrightarrow> f (Val x) (Val v) = Val (x + s * v)"
      and d: "distinct (map (\<lambda>(r, c, v). kf r c) ts)"
      and b: "\<And>r c v. (r, c, v) \<in> set ts \<Longrightarrow> \<bar>value_at el (kf r c) + s * v\<bar> \<le> 9007199254740992"
  shows "combine kf f (vals el) (map (\<lambda>(r, c, v). (r, c, Val v)) ts)
         = vals (accum_all kf s el ts)"
  using d b
proof (induction ts arbitrary: el)
  case Nil
  then show ?case by (simp add: combine_def accum_all_def)
next
  case (Cons t ts)
  obtain r c v where t: "t = (r, c, v)" by (cases t)
  let ?el = "accum el (kf r c) (s * v)"
  from Cons.prems(2)[of r c v] have x: "\<bar>value_at el (kf r c) + s * v\<bar> \<le> 9007199254740992"
    by (simp add: t)
  have step: "store (vals el) (kf r c) (f (fetch (vals el) (kf r c)) (Val v)) = vals ?el"
    by (simp add: fetch_vals f[OF x] store_vals accum_def)
  from Cons.prems(1) have d': "distinct (map (\<lambda>(r, c, v). kf r c) ts)"
    and ni: "kf r c \<notin> (\<lambda>(r, c, v). kf r c) ` set ts"
    by (simp_all add: t)
  have n: "kf r' c' \<noteq> kf r c" if "(r', c', v') \<in> set ts" for r' c' v'
    using ni that by force
  have b': "\<bar>value_at ?el (kf r' c') + s * v'\<bar> \<le> 9007199254740992"
    if "(r', c', v') \<in> set ts" for r' c' v'
    using Cons.prems(2)[of r' c' v'] that n[OF that] by (simp add: value_at_accum)
  have "combine kf f (vals el) (map (\<lambda>(r, c, v). (r, c, Val v)) (t # ts))
        = combine kf f (vals ?el) (map (\<lambda>(r, c, v). (r, c, Val v)) ts)"
    by (simp add: combine_def t step)
  also have "\<dots> = vals (accum_all kf s ?el ts)"
    by (rule Cons.IH[OF d' b'])
  finally show ?case
    by (simp add: t accum_all_Cons)
qed

lemma keys_decoded:
  assumes c: "coded kf dcd R C el" and a: "agrees kf' kf R C"
  shows "map (\<lambda>(r, c, v). kf' r c) (decoded dcd el) = map fst el"
  unfolding decoded_def map_map
proof (rule map_cong[OF refl])
  fix x assume x: "x \<in> set el"
  obtain key v where kv: "x = (key, v)" by (cases x)
  from codedD[OF c x[unfolded kv]] obtain i j
    where "i < R" "j < C" "key = kf i j" "dcd key = (Fin i, Fin j)" by blast
  with a show "((\<lambda>(r, c, v). kf' r c) \<circ> (\<lambda>(key, v). case dcd key of (row, col) \<Rightarrow> (row, col, v))) x
               = fst x"
    by (simp add: kv agrees_def)
qed

lemma combined_exact:
  fixes a b :: "('k \<times> int) list"
  assumes f: "\<And>x v. \<bar>x + s * v\<bar> \<le> 9007199254740992 \<Longrightarrow> f (Val x) (Val v) = Val (x + s * v)"
      and eb: "elided b" and cb: "coded kf dcd R C b" and ag: "agrees kf' kf R C"
      and bd: "\<And>i j. i < R \<Longrightarrow> j < C \<Longrightarrow>
                 \<bar>value_at a (kf i j) + s * value_at b (kf i j)\<bar> \<le> 9007199254740992"
  shows "combine kf' f (vals a) (decoded dcd (vals b))
         = vals (accum_all kf' s a (decoded dcd b))"
  unfolding decoded_vals
proof (rule combine_exact[OF f])
  show "distinct (map (\<lambda>(r, c, v). kf' r c) (decoded dcd b))"
    unfolding keys_decoded[OF cb ag] by (rule elided_distinct[OF eb])
next
  fix r c v assume "(r, c, v) \<in> set (decoded dcd b)"
  then obtain key where k: "(key, v) \<in> set b" and dk: "dcd key = (r, c)"
    by (auto simp: decoded_def split: prod.splits)
  from codedD[OF cb k] dk obtain i j
    where ij: "i < R" "j < C" "key = kf i j" "r = Fin i" "c = Fin j" by auto
  from elided_mem[OF eb, of key v] k have v: "value_at b key = v" by simp
  from ag ij have "kf' r c = kf i j" by (simp add: agrees_def)
  with bd[OF ij(1,2)] v ij show "\<bar>value_at a (kf' r c) + s * v\<bar> \<le> 9007199254740992"
    by simp
next
  fix x v :: int
  assume "\<bar>x + s * v\<bar> \<le> 9007199254740992"
  then show "\<bar>x + s * v\<bar> \<le> 9007199254740992" .
qed

lemma combined_store:
  fixes a b :: "('k \<times> int) list"
  assumes f: "\<And>x v. \<bar>x + s * v\<bar> \<le> 9007199254740992 \<Longrightarrow> f (Val x) (Val v) = Val (x + s * v)"
      and ea: "elided a" and eb: "elided b"
      and ca: "coded kf dcd R C a" and cb: "coded kf dcd R C b"
      and ag: "agrees kf' kf R C" and sp: "separates kf R C"
      and bd: "\<And>i j. i < R \<Longrightarrow> j < C \<Longrightarrow>
                 \<bar>value_at a (kf i j) + s * value_at b (kf i j)\<bar> \<le> 9007199254740992"
  defines "x \<equiv> accum_all kf' s a (decoded dcd b)"
  shows "combine kf' f (vals a) (decoded dcd (vals b)) = vals x"
    and "elided x" and "coded kf dcd R C x"
    and "\<And>k. \<bar>value_at x k\<bar> \<le> 9007199254740992"
    and "\<And>k. value_at x k = value_at a k + s * value_at b k"
    and "set (decoded dcd (vals x))
         = {(Fin i, Fin j, Val v) | i j v. i < R \<and> j < C
              \<and> (\<exists>w. (Fin i, Fin j, w) \<in> set (decoded dcd (vals a)) \<union> set (decoded dcd (vals b)))
              \<and> v = value_at a (kf i j) + s * value_at b (kf i j) \<and> v \<noteq> 0}"
proof -
  show 1: "combine kf' f (vals a) (decoded dcd (vals b)) = vals x"
    unfolding x_def by (rule combined_exact[OF f eb cb ag bd])
  show e: "elided x"
    unfolding x_def by (rule elided_accum_all[OF ea])
  show c: "coded kf dcd R C x"
    unfolding x_def by (rule combined_coded[OF ea eb ca cb ag])
  show v: "value_at x k = value_at a k + s * value_at b k" for k
    unfolding x_def by (rule value_accum_all_decoded[OF elided_distinct[OF eb] cb ag])
  show "\<bar>value_at x k\<bar> \<le> 9007199254740992" for k
  proof (cases "value_at x k = 0")
    case True
    then show ?thesis by simp
  next
    case False
    with elided_key_iff[OF e, of k] have "k \<in> fst ` set x" by simp
    with c obtain i j where "i < R" "j < C" "k = kf i j"
      unfolding coded_def by blast
    with bd[of i j] show ?thesis by (simp add: v)
  qed
  have m: "set (decoded dcd (vals y)) = {(r, c, Val v) | r c v. (r, c, v) \<in> set (decoded dcd y)}"
    for y :: "('k \<times> int) list"
    by (force simp: decoded_vals)
  have w: "(\<exists>w. (r, c, w) \<in> set (decoded dcd (vals a)) \<union> set (decoded dcd (vals b)))
           \<longleftrightarrow> (\<exists>w. (r, c, w) \<in> set (decoded dcd a) \<union> set (decoded dcd b))" for r c
    unfolding m by blast
  show "set (decoded dcd (vals x))
         = {(Fin i, Fin j, Val v) | i j v. i < R \<and> j < C
              \<and> (\<exists>w. (Fin i, Fin j, w) \<in> set (decoded dcd (vals a)) \<union> set (decoded dcd (vals b)))
              \<and> v = value_at a (kf i j) + s * value_at b (kf i j) \<and> v \<noteq> 0}"
  proof -
    have ce: "set (decoded dcd x)
         = {(Fin i, Fin j, v) | i j v. i < R \<and> j < C
              \<and> (\<exists>w. (Fin i, Fin j, w) \<in> set (decoded dcd a) \<union> set (decoded dcd b))
              \<and> v = value_at a (kf i j) + s * value_at b (kf i j) \<and> v \<noteq> 0}"
      unfolding x_def by (rule combined_entries[OF ea eb ca cb ag sp])
    show ?thesis
      unfolding w m[of x] ce by blast
  qed
qed

section \<open>Well-formed matrices\<close>

text \<open>
  The data model of the specification, for a matrix of \<open>R\<close> rows and \<open>C\<close> columns: no
  stored value is 0 and every stored coordinate is within the declared dimensions.
  Besides, every stored value is an integer of magnitude at most \<open>2^53\<close>, and \<open>R * C\<close> is
  at most \<open>2^53\<close>, so that every coordinate and every key is exact. \<open>well_formed\<close> is this
  for the string keys of \<open>src/index.js\<close>, \<open>well_formed2\<close> for the numeric keys of
  \<open>src/unnamed/part_000\<close>. \<open>entry\<close> and \<open>entry2\<close> are the integer read at a coordinate.
\<close>

definition in_bounds :: "nat \<Rightarrow> nat \<Rightarrow> (string \<times> 'v) list \<Rightarrow> bool" where
  "in_bounds R C el =
     list_all (\<lambda>(key, v). case split_key key of
                 (Fin i, Fin j) \<Rightarrow> i < R \<and> j < C \<and> key = key_of (Fin i) (Fin j)
               | _ \<Rightarrow> False) el"

definition well_formed :: "nat \<Rightarrow> nat \<Rightarrow> SparseMatrix \<Rightarrow> bool" where
  "well_formed R C m =
     (rows m = Fin R \<and> cols m = Fin C \<and> int R * int C \<le> 9007199254740992
      \<and> elided (elements m) \<and> finite_values (elements m) \<and> in_bounds R C (elements m))"

definition in_bounds2 :: "nat \<Rightarrow> nat \<Rightarrow> (jsnum \<times> 'v) list \<Rightarrow> bool" where
  "in_bounds2 R C el = list_all (\<lambda>(key, v). case key of Fin k \<Rightarrow> k < R * C | _ \<Rightarrow> False) el"

definition well_formed2 :: "nat \<Rightarrow> nat \<Rightarrow> SparseMap \<Rightarrow> bool" where
  "well_formed2 R C m =
     (rows m = Fin R \<and> cols m = Fin C \<and> int R * int C \<le> 9007199254740992
      \<and> elided (elements m) \<and> finite_values (elements m) \<and> in_bounds2 R C (elements m))"

definition entry :: "SparseMatrix \<Rightarrow> nat \<Rightarrow> nat \<Rightarrow> int" where
  "entry m i j = the_int (getElement m (Fin i) (Fin j))"

definition entry2 :: "SparseMap \<Rightarrow> nat \<Rightarrow> nat \<Rightarrow> int" where
  "entry2 m i j = the_int (get m (Fin i) (Fin j))"

definition key_coords :: "jsnum \<Rightarrow> jsnum \<Rightarrow> jsnum \<times> jsnum" where
  "key_coords c key = (js_floor_div key c, js_mod key c)"

definition skey :: "nat \<Rightarrow> nat \<Rightarrow> string" where
  "skey i j = key_of (Fin i) (Fin j)"

definition nkey :: "nat \<Rightarrow> nat \<Rightarrow> nat \<Rightarrow> jsnum" where
  "nkey c i j = Fin (i * c + j)"

lemma small_coords:
  assumes b: "int R * int C \<le> 9007199254740992" and i: "i < R" and j: "j < C"
  shows "int (i * C + j) \<le> 9007199254740992" and "int i \<le> 9007199254740992"
    and "int j \<le> 9007199254740992" and "int i * int C \<le> 9007199254740992"
proof -
  from i j have "i * C + j < i * C + C" by simp
  also have "\<dots> = Suc i * C" by simp
  also from i have "\<dots> \<le> R * C" by (intro mult_le_mono1) simp
  finally have l: "i * C + j < R * C" .
  then have "int (i * C + j) < int (R * C)" by (simp only: of_nat_less_iff)
  with b show k: "int (i * C + j) \<le> 9007199254740992" by simp
  from j obtain c' where "C = Suc c'" by (cases C) auto
  then have "i \<le> i * C" by simp
  then have "i \<le> i * C + j" and "j \<le> i * C + j" and "i * C \<le> i * C + j"
    by linarith+
  then have a: "int i \<le> int (i * C + j)" "int j \<le> int (i * C + j)"
    "int (i * C) \<le> int (i * C + j)" by (simp_all only: of_nat_le_iff)
  show "int i \<le> 9007199254740992" by (rule order_trans[OF a(1) k])
  show "int j \<le> 9007199254740992" by (rule order_trans[OF a(2) k])
  have "int i * int C = int (i * C)" by simp
  then show "int i * int C \<le> 9007199254740992"
    using order_trans[OF a(3) k] by (simp only:)
qed

lemma key_in_range:
  fixes i j R C :: nat
  assumes i: "i < R" and j: "j < C"
  shows "i * C + j < R * C"
proof -
  from j have "i * C + j < i * C + C" by simp
  also have "\<dots> = Suc i * C" by simp
  also from i have "\<dots> \<le> R * C" by (intro mult_le_mono1) simp
  finally show ?thesis .
qed

lemma entries_decoded: "entries m = decoded split_key (elements m)"
  by (simp add: entries_def decoded_def)

lemma iterator_decoded: "iterator m = decoded (key_coords (cols m)) (elements m)"
  by (simp add: iterator_def decoded_def key_coords_def)

lemma coded_in_bounds: "in_bounds R C el \<Longrightarrow> coded skey split_key R C el"
  unfolding in_bounds_def coded_def list_all_iff skey_def
  by (fastforce split: prod.splits jsnum.splits)

lemma in_bounds_coded: "coded skey split_key R C el \<Longrightarrow> in_bounds R C el"
  unfolding in_bounds_def coded_def list_all_iff skey_def
  by (fastforce split: prod.splits jsnum.splits)

lemma exact_small: "int i \<le> 9007199254740992 \<Longrightarrow> exact_num (Fin i)"
  by (simp add: exact_num_def)

lemma separates_skey:
  assumes "int R * int C \<le> 9007199254740992"
  shows "separates skey R C"
  unfolding separates_def skey_def
proof (intro allI impI)
  fix i j i' j'
  assume "i < R" "j < C" "i' < R" "j' < C"
    and e: "key_of (Fin i) (Fin j) = key_of (Fin i') (Fin j')"
  then have "exact_num (Fin i)" "exact_num (Fin j)" "exact_num (Fin i')" "exact_num (Fin j')"
    using small_coords(2,3)[OF assms] by (simp_all add: exact_small)
  from key_of_inj[OF this] e show "i = i' \<and> j = j'" by simp
qed

lemma agrees_key_of: "agrees key_of skey R C"
  by (simp add: agrees_def skey_def)

lemma decodes_skey:
  assumes "int R * int C \<le> 9007199254740992"
  shows "decodes skey split_key R C"
  unfolding decodes_def skey_def
  using small_coords(2,3)[OF assms] by (simp add: split_key_key_of exact_small)

lemma key_coords_nkey:
  assumes b: "int R * int C \<le> 9007199254740992" and i: "i < R" and j: "j < C"
  shows "key_coords (Fin C) (nkey C i j) = (Fin i, Fin j)"
proof -
  from j have c: "0 < C" by simp
  have "js_floor_div (Fin (i * C + j)) (Fin C) = Fin ((i * C + j) div C)"
    by (rule js_floor_div_exact[OF small_coords(1)[OF b i j] c])
  moreover from c have "js_mod (Fin (i * C + j)) (Fin C) = Fin ((i * C + j) mod C)"
    by simp
  ultimately show ?thesis
    using j by (simp add: key_coords_def nkey_def)
qed

lemma coded_in_bounds2:
  assumes b: "int R * int C \<le> 9007199254740992" and "in_bounds2 R C el"
  shows "coded (nkey C) (key_coords (Fin C)) R C el"
  unfolding coded_def
proof
  fix key assume "key \<in> fst ` set el"
  then obtain v where "(key, v) \<in> set el" by auto
  with assms obtain k where k: "key = Fin k" "k < R * C"
    by (auto simp: in_bounds2_def list_all_iff split: jsnum.splits)
  then have c: "0 < C" by (cases C) simp_all
  from k have i: "k div C < R"
    by (simp add: less_mult_imp_div_less)
  from c have j: "k mod C < C" by simp
  have e: "key = nkey C (k div C) (k mod C)"
    by (simp add: k nkey_def)
  from key_coords_nkey[OF b i j] e i j
  show "\<exists>i<R. \<exists>j<C. key = nkey C i j \<and> key_coords (Fin C) key = (Fin i, Fin j)"
    by auto
qed

lemma in_bounds2_coded:
  assumes "coded (nkey C) dcd R C el"
  shows "in_bounds2 R C el"
  unfolding in_bounds2_def list_all_iff
proof
  fix x assume x: "x \<in> set el"
  obtain key v where kv: "x = (key, v)" by (cases x)
  from codedD[OF assms x[unfolded kv]] obtain i j
    where ij: "i < R" "j < C" "key = nkey C i j" by blast
  from key_in_range[OF ij(1,2)] ij
  show "case x of (key, v) \<Rightarrow> (case key of Fin k \<Rightarrow> k < R * C | _ \<Rightarrow> False)"
    by (simp add: kv nkey_def)
qed

lemma separates_nkey: "separates (nkey C) R C"
  unfolding separates_def nkey_def
proof (intro allI impI)
  fix i j i' j'
  assume j: "j < C" and j': "j' < C" and "Fin (i * C + j) = Fin (i' * C + j')"
  then have e: "i * C + j = i' * C + j'" by simp
  then have "(i * C + j) div C = (i' * C + j') div C" by simp
  with j j' have "i = i'" by simp
  with e show "i = i' \<and> j = j'" by simp
qed

lemma getKey_nkey:
  assumes "cols m = Fin C" and "int R * int C \<le> 9007199254740992" and "i < R" and "j < C"
  shows "getKey m (Fin i) (Fin j) = nkey C i j"
proof -
  note s = small_coords[OF assms(2,3,4)]
  from s(4) have "js_mul (Fin i) (Fin C) = Fin (i * C)" by (rule js_mul_exact)
  moreover from s(1) have "js_add (Fin (i * C)) (Fin j) = Fin (i * C + j)"
    by (intro js_add_exact) simp
  ultimately show ?thesis
    by (simp add: getKey_def nkey_def assms(1))
qed

lemma agrees_getKey:
  "cols m = Fin C \<Longrightarrow> int R * int C \<le> 9007199254740992 \<Longrightarrow> agrees (getKey m) (nkey C) R C"
  by (simp add: agrees_def getKey_nkey)

lemma decodes_nkey:
  "int R * int C \<le> 9007199254740992 \<Longrightarrow> decodes (nkey C) (key_coords (Fin C)) R C"
  by (simp add: decodes_def key_coords_nkey)

lemma well_formed_store:
  assumes "well_formed R C m"
  obtains a where "elements m = vals a" and "elided a" and "coded skey split_key R C a"
    and "\<forall>k. \<bar>value_at a k\<bar> \<le> 9007199254740992"
proof
  from assms have f: "finite_values (elements m)" and e: "elided (elements m)"
    and i: "in_bounds R C (elements m)"
    by (simp_all add: well_formed_def)
  show v: "elements m = vals (ints (elements m))"
    by (rule vals_ints[OF f, symmetric])
  from e show "elided (ints (elements m))"
    by (subst (asm) v) (simp add: elided_vals)
  from coded_in_bounds[OF i] show "coded skey split_key R C (ints (elements m))"
    by (subst (asm) v) (simp add: coded_vals)
  have "\<bar>value_at (ints (elements m)) k\<bar> \<le> 9007199254740992" for k
    using f by (subst (asm) v) (rule finite_values_bound)
  then show "\<forall>k. \<bar>value_at (ints (elements m)) k\<bar> \<le> 9007199254740992" ..
qed

lemma well_formed2_store:
  assumes "well_formed2 R C m"
  obtains a where "elements m = vals a" and "elided a"
    and "coded (nkey C) (key_coords (Fin C)) R C a"
    and "\<forall>k. \<bar>value_at a k\<bar> \<le> 9007199254740992"
proof
  from assms have f: "finite_values (elements m)" and e: "elided (elements m)"
    and i: "in_bounds2 R C (elements m)" and b: "int R * int C \<le> 9007199254740992"
    by (simp_all add: well_formed2_def)
  show v: "elements m = vals (ints (elements m))"
    by (rule vals_ints[OF f, symmetric])
  from e show "elided (ints (elements m))"
    by (subst (asm) v) (simp add: elided_vals)
  from coded_in_bounds2[OF b i]
  show "coded (nkey C) (key_coords (Fin C)) R C (ints (elements m))"
    by (subst (asm) v) (simp add: coded_vals)
  have "\<bar>value_at (ints (elements m)) k\<bar> \<le> 9007199254740992" for k
    using f by (subst (asm) v) (rule finite_values_bound)
  then show "\<forall>k. \<bar>value_at (ints (elements m)) k\<bar> \<le> 9007199254740992" ..
qed

lemma well_formed_vals:
  assumes "rows m = Fin R" and "cols m = Fin C" and "int R * int C \<le> 9007199254740992"
      and "elements m = vals x" and "elided x" and "coded skey split_key R C x"
      and "\<And>k. \<bar>value_at x k\<bar> \<le> 9007199254740992"
  shows "well_formed R C m"
  unfolding well_formed_def assms(4)
  using assms(1,2,3,5)
  by (simp add: elided_vals finite_values_vals[OF assms(5,7)]
      in_bounds_coded[OF assms(6)[folded coded_vals]])

lemma well_formed2_vals:
  assumes "rows m = Fin R" and "cols m = Fin C" and "int R * int C \<le> 9007199254740992"
      and "elements m = vals x" and "elided x" and "coded (nkey C) dcd R C x"
      and "\<And>k. \<bar>value_at x k\<bar> \<le> 9007199254740992"
  shows "well_formed2 R C m"
  unfolding well_formed2_def assms(4)
  using assms(1,2,3,5)
  by (simp add: elided_vals finite_values_vals[OF assms(5,7)]
      in_bounds2_coded[OF assms(6)[folded coded_vals]])

lemma entry_vals: "elements m = vals a \<Longrightarrow> entry m i j = value_at a (skey i j)"
  by (simp add: entry_def getElement_fetch fetch_vals the_int_Val skey_def)

lemma getElement_vals: "elements m = vals a \<Longrightarrow> getElement m (Fin i) (Fin j) = Val (value_at a (skey i j))"
  by (simp add: getElement_fetch fetch_vals skey_def)

lemma get_vals:
  assumes "elements m = vals a" and "cols m = Fin C" and "int R * int C \<le> 9007199254740992"
      and "i < R" and "j < C"
  shows "get m (Fin i) (Fin j) = Val (value_at a (nkey C i j))"
  by (simp add: get_fetch fetch_vals assms(1) getKey_nkey[OF assms(2,3,4,5)])

lemma entry2_vals:
  assumes "elements m = vals a" and "cols m = Fin C" and "int R * int C \<le> 9007199254740992"
      and "i < R" and "j < C"
  shows "entry2 m i j = value_at a (nkey C i j)"
  by (simp add: entry2_def get_vals[OF assms] the_int_Val)

section \<open>Addition and subtraction\<close>

lemma add_elements:
  "distinct (map fst (elements A)) \<Longrightarrow>
   elements (add A B) = combine key_of val_add (elements A) (entries B)"
  using copy_identity[of "[]" "elements A"]
  by (simp add: add_def combine_loop[of val_add] copy_loop new_matrix_def entries_def)

lemma subtract_elements:
  "distinct (map fst (elements A)) \<Longrightarrow>
   elements (subtract A B) = combine key_of val_sub (elements A) (entries B)"
  using copy_identity[of "[]" "elements A"]
  by (simp add: subtract_def combine_loop[of val_sub] copy_loop new_matrix_def entries_def)

lemma dims_add: "rows (add A B) = rows A" "cols (add A B) = cols A"
  by (simp_all add: add_def combine_loop[of val_add] copy_loop new_matrix_def)

lemma dims_subtract: "rows (subtract A B) = rows A" "cols (subtract A B) = cols A"
  by (simp_all add: subtract_def combine_loop[of val_sub] copy_loop new_matrix_def)

lemma copy2_identity:
  assumes "well_formed2 R C A"
  shows "foldl (\<lambda>result (row, col, v). set_entry result row col v)
               (new_matrix (rows A) (cols A)) (iterator A)
         = \<lparr>rows = rows A, cols = cols A, elements = elements A\<rparr>"
proof -
  let ?n = "new_matrix (rows A) (cols A) :: SparseMap"
  from assms have e: "elided ([] @ elements A)" and b: "int R * int C \<le> 9007199254740992"
    and cl: "cols A = Fin C"
    and c: "coded (nkey C) (key_coords (Fin C)) R C (elements A)"
    by (simp_all add: well_formed2_def coded_in_bounds2)
  have a: "agrees (getKey ?n) (nkey C) R C"
    by (rule agrees_getKey[OF _ b]) (simp add: new_matrix_def cl)
  have "foldl (\<lambda>el (row, col, v). store el (getKey ?n row col) v) []
          (decoded (key_coords (Fin C)) (elements A)) = [] @ elements A"
    by (rule copy_decoded_identity[OF e c a])
  then show ?thesis
    unfolding copy2_loop_kf[OF refl] iterator_decoded cl
    by (simp add: new_matrix_def)
qed

lemma add2_elements:
  "well_formed2 R C A \<Longrightarrow>
   elements (add2 A B) = combine (getKey A) val_add (elements A) (iterator B)"
  unfolding add2_def copy2_identity
  by (subst combine2_loop_kf[where kf = "getKey A"]) (simp_all add: getKey_def fun_eq_iff)

lemma subtract2_elements:
  "well_formed2 R C A \<Longrightarrow>
   elements (subtract2 A B) = combine (getKey A) val_sub (elements A) (iterator B)"
  unfolding subtract2_def copy2_identity
  by (subst combine2_loop_kf[where kf = "getKey A"]) (simp_all add: getKey_def fun_eq_iff)

lemma dims_add2: "rows (add2 A B) = rows A" "cols (add2 A B) = cols A"
  by (simp_all add: add2_def combine2_loop_kf[OF refl, where f = val_add]
      copy2_loop_kf[OF refl] new_matrix_def)

lemma dims_subtract2: "rows (subtract2 A B) = rows A" "cols (subtract2 A B) = cols A"
  by (simp_all add: subtract2_def combine2_loop_kf[OF refl, where f = val_sub]
      copy2_loop_kf[OF refl] new_matrix_def)

lemma combined_index:
  assumes f: "\<And>x v. \<bar>x + s * v\<bar> \<le> 9007199254740992 \<Longrightarrow> f (Val x) (Val v) = Val (x + s * v)"
      and wa: "well_formed R C A" and wb: "well_formed R C B"
      and bd: "\<And>i j. i < R \<Longrightarrow> j < C \<Longrightarrow> \<bar>entry A i j + s * entry B i j\<bar> \<le> 9007199254740992"
      and el: "elements M = combine key_of f (elements A) (entries B)"
      and rm: "rows M = rows A" and cm: "cols M = cols A"
  shows "well_formed R C M"
    and "\<And>i j. getElement M (Fin i) (Fin j) = Val (entry A i j + s * entry B i j)"
    and "set (entries M)
         = {(Fin i, Fin j, Val v) | i j v. i < R \<and> j < C
              \<and> (\<exists>w. (Fin i, Fin j, w) \<in> set (entries A) \<union> set (entries B))
              \<and> v = entry A i j + s * entry B i j \<and> v \<noteq> 0}"
proof -
  from wa obtain a where a: "elements A = vals a" and ea: "elided a"
    and ca: "coded skey split_key R C a"
    by (rule well_formed_store)
  from wb obtain b where b: "elements B = vals b" and eb: "elided b"
    and cb: "coded skey split_key R C b"
    by (rule well_formed_store)
  from wa have d: "rows A = Fin R" "cols A = Fin C" "int R * int C \<le> 9007199254740992"
    by (simp_all add: well_formed_def)
  note en = entry_vals[OF a] entry_vals[OF b]
  note ag = agrees_key_of[of R C] and sp = separates_skey[OF d(3)]
  let ?x = "accum_all key_of s a (decoded split_key b)"
  note c = combined_store[OF f ea eb ca cb ag sp bd[unfolded en]]
  have m: "elements M = vals ?x"
    unfolding el a entries_decoded b by (rule c(1))
  show "well_formed R C M"
    by (rule well_formed_vals[OF _ _ d(3) m c(2,3,4)]) (simp_all add: rm cm d)
  show "getElement M (Fin i) (Fin j) = Val (entry A i j + s * entry B i j)" for i j
    unfolding getElement_vals[OF m] en by (simp add: c(5))
  show "set (entries M)
         = {(Fin i, Fin j, Val v) | i j v. i < R \<and> j < C
              \<and> (\<exists>w. (Fin i, Fin j, w) \<in> set (entries A) \<union> set (entries B))
              \<and> v = entry A i j + s * entry B i j \<and> v \<noteq> 0}"
    unfolding entries_decoded m a b en by (rule c(6))
qed

lemma combined_numeric:
  assumes f: "\<And>x v. \<bar>x + s * v\<bar> \<le> 9007199254740992 \<Longrightarrow> f (Val x) (Val v) = Val (x + s * v)"
      and wa: "well_formed2 R C A" and wb: "well_formed2 R C B"
      and bd: "\<And>i j. i < R \<Longrightarrow> j < C \<Longrightarrow> \<bar>entry2 A i j + s * entry2 B i j\<bar> \<le> 9007199254740992"
      and el: "elements M = combine (getKey A) f (elements A) (iterator B)"
      and rm: "rows M = rows A" and cm: "cols M = cols A"
  shows "well_formed2 R C M"
    and "\<And>i j. i < R \<Longrightarrow> j < C \<Longrightarrow> get M (Fin i) (Fin j) = Val (entry2 A i j + s * entry2 B i j)"
    and "set (iterator M)
         = {(Fin i, Fin j, Val v) | i j v. i < R \<and> j < C
              \<and> (\<exists>w. (Fin i, Fin j, w) \<in> set (iterator A) \<union> set (iterator B))
              \<and> v = entry2 A i j + s * entry2 B i j \<and> v \<noteq> 0}"
proof -
  from wa obtain a where a: "elements A = vals a" and ea: "elided a"
    and ca: "coded (nkey C) (key_coords (Fin C)) R C a"
    by (rule well_formed2_store)
  from wb obtain b where b: "elements B = vals b" and eb: "elided b"
    and cb: "coded (nkey C) (key_coords (Fin C)) R C b"
    by (rule well_formed2_store)
  from wa have d: "rows A = Fin R" "cols A = Fin C" "int R * int C \<le> 9007199254740992"
    by (simp_all add: well_formed2_def)
  from wb have db: "cols B = Fin C"
    by (simp add: well_formed2_def)
  have en: "entry2 A i j = value_at a (nkey C i j)" "entry2 B i j = value_at b (nkey C i j)"
    if "i < R" "j < C" for i j
    using entry2_vals[OF a d(2,3) that] entry2_vals[OF b db d(3) that] by simp_all
  note ag = agrees_getKey[OF d(2,3)] and sp = separates_nkey[of C R]
  let ?x = "accum_all (getKey A) s a (decoded (key_coords (Fin C)) b)"
  have bd': "\<bar>value_at a (nkey C i j) + s * value_at b (nkey C i j)\<bar> \<le> 9007199254740992"
    if "i < R" "j < C" for i j
    using bd[OF that] by (simp add: en[OF that])
  note c = combined_store[OF f ea eb ca cb ag sp bd']
  have m: "elements M = vals ?x"
    unfolding el a iterator_decoded b db by (rule c(1))
  show "well_formed2 R C M"
    by (rule well_formed2_vals[OF _ _ d(3) m c(2,3,4)]) (simp_all add: rm cm d)
  show "get M (Fin i) (Fin j) = Val (entry2 A i j + s * entry2 B i j)" if "i < R" "j < C" for i j
    using get_vals[OF m _ d(3) that] by (simp add: cm d c(5) en[OF that])
  have "set (iterator M)
         = {(Fin i, Fin j, Val v) | i j v. i < R \<and> j < C
              \<and> (\<exists>w. (Fin i, Fin j, w) \<in> set (iterator A) \<union> set (iterator B))
              \<and> v = value_at a (nkey C i j) + s * value_at b (nkey C i j) \<and> v \<noteq> 0}"
    unfolding iterator_decoded m a b cm d db by (rule c(6))
  also have "\<dots> = {(Fin i, Fin j, Val v) | i j v. i < R \<and> j < C
              \<and> (\<exists>w. (Fin i, Fin j, w) \<in> set (iterator A) \<union> set (iterator B))
              \<and> v = entry2 A i j + s * entry2 B i j \<and> v \<noteq> 0}"
    using en by auto
  finally show "set (iterator M)
         = {(Fin i, Fin j, Val v) | i j v. i < R \<and> j < C
              \<and> (\<exists>w. (Fin i, Fin j, w) \<in> set (iterator A) \<union> set (iterator B))
              \<and> v = entry2 A i j + s * entry2 B i j \<and> v \<noteq> 0}" .
qed

lemma val_add_step:
  "\<bar>x + 1 * v\<bar> \<le> 9007199254740992 \<Longrightarrow> val_add (Val x) (Val v) = Val (x + 1 * v)"
  by (simp add: to_val_exact)

lemma val_sub_step:
  "\<bar>x + (- 1) * v\<bar> \<le> 9007199254740992 \<Longrightarrow> val_sub (Val x) (Val v) = Val (x + (- 1) * v)"
  by (simp add: to_val_exact)

lemma bit_length_numeral: "bit_length (numeral k) = bit_length (numeral k div 2) + 1"
  by (subst bit_length.simps) simp

lemma bit_length_0_1: "bit_length 0 = 0" "bit_length 1 = 1"
  by (simp_all add: bit_length.simps)

lemmas eval_num = getKey_def to_num_def round_int_def quotient_floor_def Let_def
  bit_length_numeral bit_length_0_1

lemmas eval_store = set_entry_def get_def iterator_def Map_get_def Map_set_def Map_delete_def
  new_matrix_def

lemma add2_key_rounds:
  "get (set_entry (new_matrix (Fin 3002399751580332) (Fin 3))
          (Fin 3002399751580331) (Fin 2) (Val 7)) (Fin 3002399751580331) (Fin 2) = Val 7"
  "get (new_matrix (Fin 3002399751580332) (Fin 3)) (Fin 3002399751580331) (Fin 2) = Val 0"
  "get (add2 (set_entry (new_matrix (Fin 3002399751580332) (Fin 3))
                (Fin 3002399751580331) (Fin 2) (Val 7))
             (new_matrix (Fin 3002399751580332) (Fin 3)))
       (Fin 3002399751580331) (Fin 2) = Val 0"
  by (simp_all add: add2_def eval_store eval_num)

text \<open>
  C2 as stated fails, in three ways. In both programs a sum beyond \<open>2^53\<close> is rounded:
  on 1 x 1 matrices holding 9007199254740991 and 2, add stores 9007199254740992. In
  \<open>src/unnamed/part_000\<close> a key beyond \<open>2^53\<close> is rounded: in a matrix of
  3002399751580332 rows and 3 columns the value 7 set at (3002399751580331, 2) is read
  back there, but add of this matrix and the empty one reads 0 there (the first loop of
  add decodes the key 9007199254740994 to column 1 and writes the key
  9007199254740992). And in \<open>src/unnamed/part_000\<close> an entry outside the declared
  dimensions is lost: in a matrix of 1 row and 0 columns the value 5 set at (0, 0) is read
  back there, but add of this matrix and the empty one reads 0 there.
\<close>

theorem add_rounds_counterexample:
  "getElement (setElement (new_matrix (Fin 1) (Fin 1)) (Fin 0) (Fin 0) (Val 9007199254740991))
      (Fin 0) (Fin 0) = Val 9007199254740991
   \<and> getElement (setElement (new_matrix (Fin 1) (Fin 1)) (Fin 0) (Fin 0) (Val 2))
      (Fin 0) (Fin 0) = Val 2
   \<and> getElement (add
        (setElement (new_matrix (Fin 1) (Fin 1)) (Fin 0) (Fin 0) (Val 9007199254740991))
        (setElement (new_matrix (Fin 1) (Fin 1)) (Fin 0) (Fin 0) (Val 2)))
      (Fin 0) (Fin 0) = Val 9007199254740992
   \<and> get (add2
        (set_entry (new_matrix (Fin 1) (Fin 1)) (Fin 0) (Fin 0) (Val 9007199254740991))
        (set_entry (new_matrix (Fin 1) (Fin 1)) (Fin 0) (Fin 0) (Val 2)))
      (Fin 0) (Fin 0) = Val 9007199254740992
   \<and> get (set_entry (new_matrix (Fin 3002399751580332) (Fin 3))
          (Fin 3002399751580331) (Fin 2) (Val 7)) (Fin 3002399751580331) (Fin 2) = Val 7
   \<and> get (new_matrix (Fin 3002399751580332) (Fin 3)) (Fin 3002399751580331) (Fin 2) = Val 0
   \<and> get (add2 (set_entry (new_matrix (Fin 3002399751580332) (Fin 3))
                   (Fin 3002399751580331) (Fin 2) (Val 7))
               (new_matrix (Fin 3002399751580332) (Fin 3)))
        (Fin 3002399751580331) (Fin 2) = Val 0
   \<and> get (set_entry (new_matrix (Fin 1) (Fin 0)) (Fin 0) (Fin 0) (Val 5)) (Fin 0) (Fin 0) = Val 5
   \<and> get (new_matrix (Fin 1) (Fin 0)) (Fin 0) (Fin 0) = Val 0
   \<and> get (add2 (set_entry (new_matrix (Fin 1) (Fin 0)) (Fin 0) (Fin 0) (Val 5))
               (new_matrix (Fin 1) (Fin 0))) (Fin 0) (Fin 0) = Val 0"
proof -
  have "getElement (setElement (new_matrix (Fin 1) (Fin 1)) (Fin 0) (Fin 0) (Val 9007199254740991))
      (Fin 0) (Fin 0) = Val 9007199254740991"
    "getElement (setElement (new_matrix (Fin 1) (Fin 1)) (Fin 0) (Fin 0) (Val 2))
      (Fin 0) (Fin 0) = Val 2"
    "getElement (add
        (setElement (new_matrix (Fin 1) (Fin 1)) (Fin 0) (Fin 0) (Val 9007199254740991))
        (setElement (new_matrix (Fin 1) (Fin 1)) (Fin 0) (Fin 0) (Val 2)))
      (Fin 0) (Fin 0) = Val 9007199254740992"
    "get (add2
        (set_entry (new_matrix (Fin 1) (Fin 1)) (Fin 0) (Fin 0) (Val 9007199254740991))
        (set_entry (new_matrix (Fin 1) (Fin 1)) (Fin 0) (Fin 0) (Val 2)))
      (Fin 0) (Fin 0) = Val 9007199254740992"
    "get (set_entry (new_matrix (Fin 1) (Fin 0)) (Fin 0) (Fin 0) (Val 5)) (Fin 0) (Fin 0) = Val 5"
    "get (new_matrix (Fin 1) (Fin 0)) (Fin 0) (Fin 0) = Val 0"
    "get (add2 (set_entry (new_matrix (Fin 1) (Fin 0)) (Fin 0) (Fin 0) (Val 5))
               (new_matrix (Fin 1) (Fin 0))) (Fin 0) (Fin 0) = Val 0"
    by code_simp+
  with add2_key_rounds show ?thesis
    by (intro conjI)
qed

text \<open>
  C2 (as amended). For well-formed matrices A and B of the same dimensions R x C, with
  \<open>R * C\<close> at most \<open>2^53\<close> and with the sum A[r][c] + B[r][c] of magnitude at most \<open>2^53\<close>
  at every coordinate, add(A, B) is a well-formed matrix with the dimensions of A whose
  value at every coordinate is that sum; its stored entries are exactly the coordinates in
  the union of the supports of A and B at which the sum is not 0, each with the sum as
  its value. The same holds for subtract(A, B) with the difference. Both programs.
\<close>

theorem add_subtract_pointwise:
  "(well_formed R C A \<and> well_formed R C B
      \<and> (\<forall>i j. i < R \<longrightarrow> j < C \<longrightarrow> \<bar>entry A i j + entry B i j\<bar> \<le> 9007199254740992) \<longrightarrow>
      rows (add A B) = rows A \<and> cols (add A B) = cols A \<and> well_formed R C (add A B)
      \<and> (\<forall>i j. i < R \<longrightarrow> j < C \<longrightarrow>
            getElement (add A B) (Fin i) (Fin j) = Val (entry A i j + entry B i j))
      \<and> set (entries (add A B))
          = {(Fin i, Fin j, Val v) | i j v. i < R \<and> j < C
               \<and> (\<exists>w. (Fin i, Fin j, w) \<in> set (entries A) \<union> set (entries B))
               \<and> v = entry A i j + entry B i j \<and> v \<noteq> 0})
   \<and> (well_formed R C A \<and> well_formed R C B
      \<and> (\<forall>i j. i < R \<longrightarrow> j < C \<longrightarrow> \<bar>entry A i j - entry B i j\<bar> \<le> 9007199254740992) \<longrightarrow>
      rows (subtract A B) = rows A \<and> cols (subtract A B) = cols A
      \<and> well_formed R C (subtract A B)
      \<and> (\<forall>i j. i < R \<longrightarrow> j < C \<longrightarrow>
            getElement (subtract A B) (Fin i) (Fin j) = Val (entry A i j - entry B i j))
      \<and> set (entries (subtract A B))
          = {(Fin i, Fin j, Val v) | i j v. i < R \<and> j < C
               \<and> (\<exists>w. (Fin i, Fin j, w) \<in> set (entries A) \<union> set (entries B))
               \<and> v = entry A i j - entry B i j \<and> v \<noteq> 0})
   \<and> (well_formed2 R C A2 \<and> well_formed2 R C B2
      \<and> (\<forall>i j. i < R \<longrightarrow> j < C \<longrightarrow> \<bar>entry2 A2 i j + entry2 B2 i j\<bar> \<le> 9007199254740992) \<longrightarrow>
      rows (add2 A2 B2) = rows A2 \<and> cols (add2 A2 B2) = cols A2
      \<and> well_formed2 R C (add2 A2 B2)
      \<and> (\<forall>i j. i < R \<longrightarrow> j < C \<longrightarrow>
            get (add2 A2 B2) (Fin i) (Fin j) = Val (entry2 A2 i j + entry2 B2 i j))
      \<and> set (iterator (add2 A2 B2))
          = {(Fin i, Fin j, Val v) | i j v. i < R \<and> j < C
               \<and> (\<exists>w. (Fin i, Fin j, w) \<in> set (iterator A2) \<union> set (iterator B2))
               \<and> v = entry2 A2 i j + entry2 B2 i j \<and> v \<noteq> 0})
   \<and> (well_formed2 R C A2 \<and> well_formed2 R C B2
      \<and> (\<forall>i j. i < R \<longrightarrow> j < C \<longrightarrow> \<bar>entry2 A2 i j - entry2 B2 i j\<bar> \<le> 9007199254740992) \<longrightarrow>
      rows (subtract2 A2 B2) = rows A2 \<and> cols (subtract2 A2 B2) = cols A2
      \<and> well_formed2 R C (subtract2 A2 B2)
      \<and> (\<forall>i j. i < R \<longrightarrow> j < C \<longrightarrow>
            get (subtract2 A2 B2) (Fin i) (Fin j) = Val (entry2 A2 i j - entry2 B2 i j))
      \<and> set (iterator (subtract2 A2 B2))
          = {(Fin i, Fin j, Val v) | i j v. i < R \<and> j < C
               \<and> (\<exists>w. (Fin i, Fin j, w) \<in> set (iterator A2) \<union> set (iterator B2))
               \<and> v = entry2 A2 i j - entry2 B2 i j \<and> v \<noteq> 0})"
proof (intro conjI impI)
  assume h: "well_formed R C A \<and> well_formed R C B
      \<and> (\<forall>i j. i < R \<longrightarrow> j < C \<longrightarrow> \<bar>entry A i j + entry B i j\<bar> \<le> 9007199254740992)"
  then have wa: "well_formed R C A" and wb: "well_formed R C B"
    and bd: "\<And>i j. i < R \<Longrightarrow> j < C \<Longrightarrow> \<bar>entry A i j + 1 * entry B i j\<bar> \<le> 9007199254740992"
    by simp_all
  from wa have d: "distinct (map fst (elements A))"
    by (simp add: well_formed_def elided_def)
  note p = combined_index[where s = 1, OF val_add_step wa wb bd add_elements[OF d] dims_add]
  show "rows (add A B) = rows A" "cols (add A B) = cols A"
    by (rule dims_add)+
  show "well_formed R C (add A B)" by (rule p(1))
  show "\<forall>i j. i < R \<longrightarrow> j < C \<longrightarrow>
            getElement (add A B) (Fin i) (Fin j) = Val (entry A i j + entry B i j)"
    using p(2) by simp
  show "set (entries (add A B))
          = {(Fin i, Fin j, Val v) | i j v. i < R \<and> j < C
               \<and> (\<exists>w. (Fin i, Fin j, w) \<in> set (entries A) \<union> set (entries B))
               \<and> v = entry A i j + entry B i j \<and> v \<noteq> 0}"
    using p(3) by simp
next
  assume h: "well_formed R C A \<and> well_formed R C B
      \<and> (\<forall>i j. i < R \<longrightarrow> j < C \<longrightarrow> \<bar>entry A i j - entry B i j\<bar> \<le> 9007199254740992)"
  then have wa: "well_formed R C A" and wb: "well_formed R C B"
    and bd: "\<And>i j. i < R \<Longrightarrow> j < C \<Longrightarrow> \<bar>entry A i j + (- 1) * entry B i j\<bar> \<le> 9007199254740992"
    by simp_all
  from wa have d: "distinct (map fst (elements A))"
    by (simp add: well_formed_def elided_def)
  note m = combined_index[where s = "- 1", OF val_sub_step wa wb bd subtract_elements[OF d]
      dims_subtract]
  show "rows (subtract A B) = rows A" "cols (subtract A B) = cols A"
    by (rule dims_subtract)+
  show "well_formed R C (subtract A B)" by (rule m(1))
  show "\<forall>i j. i < R \<longrightarrow> j < C \<longrightarrow>
            getElement (subtract A B) (Fin i) (Fin j) = Val (entry A i j - entry B i j)"
    using m(2) by simp
  show "set (entries (subtract A B))
          = {(Fin i, Fin j, Val v) | i j v. i < R \<and> j < C
               \<and> (\<exists>w. (Fin i, Fin j, w) \<in> set (entries A) \<union> set (entries B))
               \<and> v = entry A i j - entry B i j \<and> v \<noteq> 0}"
    using m(3) by simp
next
  assume h: "well_formed2 R C A2 \<and> well_formed2 R C B2
      \<and> (\<forall>i j. i < R \<longrightarrow> j < C \<longrightarrow> \<bar>entry2 A2 i j + entry2 B2 i j\<bar> \<le> 9007199254740992)"
  then have wa: "well_formed2 R C A2" and wb: "well_formed2 R C B2"
    and bd: "\<And>i j. i < R \<Longrightarrow> j < C \<Longrightarrow> \<bar>entry2 A2 i j + 1 * entry2 B2 i j\<bar> \<le> 9007199254740992"
    by simp_all
  note p = combined_numeric[where s = 1, OF val_add_step wa wb bd add2_elements[OF wa] dims_add2]
  show "rows (add2 A2 B2) = rows A2" "cols (add2 A2 B2) = cols A2"
    by (rule dims_add2)+
  show "well_formed2 R C (add2 A2 B2)" by (rule p(1))
  show "\<forall>i j. i < R \<longrightarrow> j < C \<longrightarrow>
            get (add2 A2 B2) (Fin i) (Fin j) = Val (entry2 A2 i j + entry2 B2 i j)"
    using p(2) by simp
  show "set (iterator (add2 A2 B2))
          = {(Fin i, Fin j, Val v) | i j v. i < R \<and> j < C
               \<and> (\<exists>w. (Fin i, Fin j, w) \<in> set (iterator A2) \<union> set (iterator B2))
               \<and> v = entry2 A2 i j + entry2 B2 i j \<and> v \<noteq> 0}"
    using p(3) by simp
next
  assume h: "well_formed2 R C A2 \<and> well_formed2 R C B2
      \<and> (\<forall>i j. i < R \<longrightarrow> j < C \<longrightarrow> \<bar>entry2 A2 i j - entry2 B2 i j\<bar> \<le> 9007199254740992)"
  then have wa: "well_formed2 R C A2" and wb: "well_formed2 R C B2"
    and bd: "\<And>i j. i < R \<Longrightarrow> j < C \<Longrightarrow>
               \<bar>entry2 A2 i j + (- 1) * entry2 B2 i j\<bar> \<le> 9007199254740992"
    by simp_all
  note m = combined_numeric[where s = "- 1", OF val_sub_step wa wb bd subtract2_elements[OF wa]
      dims_subtract2]
  show "rows (subtract2 A2 B2) = rows A2" "cols (subtract2 A2 B2) = cols A2"
    by (rule dims_subtract2)+
  show "well_formed2 R C (subtract2 A2 B2)" by (rule m(1))
  show "\<forall>i j. i < R \<longrightarrow> j < C \<longrightarrow>
            get (subtract2 A2 B2) (Fin i) (Fin j) = Val (entry2 A2 i j - entry2 B2 i j)"
    using m(2) by simp
  show "set (iterator (subtract2 A2 B2))
          = {(Fin i, Fin j, Val v) | i j v. i < R \<and> j < C
               \<and> (\<exists>w. (Fin i, Fin j, w) \<in> set (iterator A2) \<union> set (iterator B2))
               \<and> v = entry2 A2 i j - entry2 B2 i j \<and> v \<noteq> 0}"
    using m(3) by simp
qed

lemma below_2: "i < 2 \<Longrightarrow> i = 0 \<or> i = Suc 0"
  by (cases i) auto

theorem add_subtract_pointwise_witness:
  "well_formed 2 2 (setElements (new_matrix (Fin 2) (Fin 2))
       [(Fin 0, Fin 0, Val 1), (Fin 0, Fin 1, Val 2), (Fin 1, Fin 0, Val 3), (Fin 1, Fin 1, Val 4)])
   \<and> well_formed 2 2 (setElements (new_matrix (Fin 2) (Fin 2))
       [(Fin 0, Fin 0, Val 5), (Fin 1, Fin 1, Val 6)])
   \<and> getElement (add
        (setElements (new_matrix (Fin 2) (Fin 2))
          [(Fin 0, Fin 0, Val 1), (Fin 0, Fin 1, Val 2), (Fin 1, Fin 0, Val 3),
           (Fin 1, Fin 1, Val 4)])
        (setElements (new_matrix (Fin 2) (Fin 2)) [(Fin 0, Fin 0, Val 5), (Fin 1, Fin 1, Val 6)]))
        (Fin 1) (Fin 1) = Val 10
   \<and> well_formed2 2 2 (set_entries (new_matrix (Fin 2) (Fin 2))
       [(Fin 0, Fin 0, Val 1), (Fin 0, Fin 1, Val 2), (Fin 1, Fin 0, Val 3), (Fin 1, Fin 1, Val 4)])
   \<and> well_formed2 2 2 (set_entries (new_matrix (Fin 2) (Fin 2))
       [(Fin 0, Fin 0, Val 5), (Fin 1, Fin 1, Val 6)])
   \<and> get (subtract2
        (set_entries (new_matrix (Fin 2) (Fin 2))
          [(Fin 0, Fin 0, Val 1), (Fin 0, Fin 1, Val 2), (Fin 1, Fin 0, Val 3),
           (Fin 1, Fin 1, Val 4)])
        (set_entries (new_matrix (Fin 2) (Fin 2)) [(Fin 0, Fin 0, Val 5), (Fin 1, Fin 1, Val 6)]))
        (Fin 1) (Fin 1) = Val (- 2)"
proof -
  define A where "A = setElements (new_matrix (Fin 2) (Fin 2))
       [(Fin 0, Fin 0, Val 1), (Fin 0, Fin 1, Val 2), (Fin 1, Fin 0, Val 3), (Fin 1, Fin 1, Val 4)]"
  define B where "B = setElements (new_matrix (Fin 2) (Fin 2))
       [(Fin 0, Fin 0, Val 5), (Fin 1, Fin 1, Val 6)]"
  define A2 where "A2 = set_entries (new_matrix (Fin 2) (Fin 2))
       [(Fin 0, Fin 0, Val 1), (Fin 0, Fin 1, Val 2), (Fin 1, Fin 0, Val 3), (Fin 1, Fin 1, Val 4)]"
  define B2 where "B2 = set_entries (new_matrix (Fin 2) (Fin 2))
       [(Fin 0, Fin 0, Val 5), (Fin 1, Fin 1, Val 6)]"
  have w: "well_formed 2 2 A" "well_formed 2 2 B" "well_formed2 2 2 A2" "well_formed2 2 2 B2"
    unfolding A_def B_def A2_def B2_def by code_simp+
  have e: "entry A 0 0 = 1" "entry A 0 (Suc 0) = 2" "entry A (Suc 0) 0 = 3"
    "entry A (Suc 0) (Suc 0) = 4"
    "entry B 0 0 = 5" "entry B 0 (Suc 0) = 0" "entry B (Suc 0) 0 = 0"
    "entry B (Suc 0) (Suc 0) = 6"
    "entry2 A2 0 0 = 1" "entry2 A2 0 (Suc 0) = 2" "entry2 A2 (Suc 0) 0 = 3"
    "entry2 A2 (Suc 0) (Suc 0) = 4"
    "entry2 B2 0 0 = 5" "entry2 B2 0 (Suc 0) = 0" "entry2 B2 (Suc 0) 0 = 0"
    "entry2 B2 (Suc 0) (Suc 0) = 6"
    unfolding A_def B_def A2_def B2_def by code_simp+
  have b: "\<forall>i j. i < 2 \<longrightarrow> j < 2 \<longrightarrow> \<bar>entry A i j + entry B i j\<bar> \<le> 9007199254740992"
    using e by (auto dest!: below_2)
  have b2: "\<forall>i j. i < 2 \<longrightarrow> j < 2 \<longrightarrow> \<bar>entry2 A2 i j - entry2 B2 i j\<bar> \<le> 9007199254740992"
    using e by (auto dest!: below_2)
  note t = add_subtract_pointwise[of 2 2 A B A2 B2]
  from w b have h: "well_formed 2 2 A \<and> well_formed 2 2 B
      \<and> (\<forall>i j. i < 2 \<longrightarrow> j < 2 \<longrightarrow> \<bar>entry A i j + entry B i j\<bar> \<le> 9007199254740992)"
    by (intro conjI)
  from w b2 have h2: "well_formed2 2 2 A2 \<and> well_formed2 2 2 B2
      \<and> (\<forall>i j. i < 2 \<longrightarrow> j < 2 \<longrightarrow> \<bar>entry2 A2 i j - entry2 B2 i j\<bar> \<le> 9007199254740992)"
    by (intro conjI)
  note c = t[THEN conjunct1, THEN mp, OF h]
  note c2 = t[THEN conjunct2, THEN conjunct2, THEN conjunct2, THEN mp, OF h2]
  have "getElement (add A B) (Fin (Suc 0)) (Fin (Suc 0))
        = Val (entry A (Suc 0) (Suc 0) + entry B (Suc 0) (Suc 0))"
    by (rule c[THEN conjunct2, THEN conjunct2, THEN conjunct2, THEN conjunct1,
          THEN spec, THEN spec, THEN mp, THEN mp]) simp_all
  then have g: "getElement (add A B) (Fin 1) (Fin 1) = Val 10"
    by (simp add: e)
  have "get (subtract2 A2 B2) (Fin (Suc 0)) (Fin (Suc 0))
        = Val (entry2 A2 (Suc 0) (Suc 0) - entry2 B2 (Suc 0) (Suc 0))"
    by (rule c2[THEN conjunct2, THEN conjunct2, THEN conjunct2, THEN conjunct1,
          THEN spec, THEN spec, THEN mp, THEN mp]) simp_all
  then have g2: "get (subtract2 A2 B2) (Fin 1) (Fin 1) = Val (- 2)"
    by (simp add: e)
  from w g g2 show ?thesis
    unfolding A_def B_def A2_def B2_def by (intro conjI)
qed

lemma inverse_store:
  fixes a b :: "('k \<times> int) list"
  assumes ea: "elided a" and eb: "elided b"
      and ca: "coded kf dcd R C a" and cb: "coded kf dcd R C b"
      and ag: "agrees kf' kf R C" and sp: "separates kf R C"
      and fa: "\<And>k. \<bar>value_at a k\<bar> \<le> 9007199254740992"
      and bd: "\<And>i j. i < R \<Longrightarrow> j < C \<Longrightarrow>
                 \<bar>value_at a (kf i j) + value_at b (kf i j)\<bar> \<le> 9007199254740992"
  shows "\<exists>x. combine kf' val_add (vals a) (decoded dcd (vals b)) = vals x \<and> elided x
           \<and> (\<exists>y. combine kf' val_sub (vals x) (decoded dcd (vals b)) = vals y
                  \<and> set (vals y) = set (vals a))"
proof -
  let ?x = "accum_all kf' 1 a (decoded dcd b)"
  let ?y = "accum_all kf' (- 1) ?x (decoded dcd b)"
  have bd1: "\<bar>value_at a (kf i j) + 1 * value_at b (kf i j)\<bar> \<le> 9007199254740992"
    if "i < R" "j < C" for i j
    using bd[OF that] by simp
  note c1 = combined_store[OF val_add_step ea eb ca cb ag sp bd1]
  have bd2: "\<bar>value_at ?x (kf i j) + (- 1) * value_at b (kf i j)\<bar> \<le> 9007199254740992"
    if "i < R" "j < C" for i j
    using fa[of "kf i j"] by (simp add: c1(5))
  note c2 = combined_store[OF val_sub_step c1(2) eb c1(3) cb ag sp bd2]
  have "value_at ?y k = value_at a k" for k
    by (simp add: c2(5) c1(5))
  with c2(2) ea have "set ?y = set a"
    by (intro elided_set_eq)
  then have "set (vals ?y) = set (vals a)"
    by (simp add: vals_def)
  with c1(1,2) c2(1) show ?thesis by blast
qed

text \<open>
  C7 as stated fails, in the three ways of C2. On 1 x 1 matrices holding 9007199254740991
  and 2, add stores 9007199254740992 and subtract then 9007199254740990. In
  \<open>src/unnamed/part_000\<close>, the entry set at (3002399751580331, 2) in a matrix of
  3002399751580332 rows and 3 columns is read at (3002399751580330, 2) after add and
  subtract of the empty matrix. And the entry set at (0, 0) in a matrix of 1 row and 0
  columns is no more read at (0, 0) after add and subtract of the empty matrix.
\<close>

lemma subtract2_key_rounds:
  "iterator (set_entry (new_matrix (Fin 3002399751580332) (Fin 3))
          (Fin 3002399751580331) (Fin 2) (Val 7)) = [(Fin 3002399751580331, Fin 1, Val 7)]"
  "iterator (subtract2
       (add2 (set_entry (new_matrix (Fin 3002399751580332) (Fin 3))
                (Fin 3002399751580331) (Fin 2) (Val 7))
             (new_matrix (Fin 3002399751580332) (Fin 3)))
       (new_matrix (Fin 3002399751580332) (Fin 3)))
   = [(Fin 3002399751580330, Fin 2, Val 7)]"
  by (simp_all add: subtract2_def add2_def eval_store eval_num)

theorem subtract_add_counterexample:
  "entries (setElement (new_matrix (Fin 1) (Fin 1)) (Fin 0) (Fin 0) (Val 9007199254740991))
     = [(Fin 0, Fin 0, Val 9007199254740991)]
   \<and> entries (subtract
        (add (setElement (new_matrix (Fin 1) (Fin 1)) (Fin 0) (Fin 0) (Val 9007199254740991))
             (setElement (new_matrix (Fin 1) (Fin 1)) (Fin 0) (Fin 0) (Val 2)))
        (setElement (new_matrix (Fin 1) (Fin 1)) (Fin 0) (Fin 0) (Val 2)))
     = [(Fin 0, Fin 0, Val 9007199254740990)]
   \<and> iterator (set_entry (new_matrix (Fin 1) (Fin 1)) (Fin 0) (Fin 0) (Val 9007199254740991))
     = [(Fin 0, Fin 0, Val 9007199254740991)]
   \<and> iterator (subtract2
        (add2 (set_entry (new_matrix (Fin 1) (Fin 1)) (Fin 0) (Fin 0) (Val 9007199254740991))
              (set_entry (new_matrix (Fin 1) (Fin 1)) (Fin 0) (Fin 0) (Val 2)))
        (set_entry (new_matrix (Fin 1) (Fin 1)) (Fin 0) (Fin 0) (Val 2)))
     = [(Fin 0, Fin 0, Val 9007199254740990)]
   \<and> iterator (set_entry (new_matrix (Fin 3002399751580332) (Fin 3))
          (Fin 3002399751580331) (Fin 2) (Val 7)) = [(Fin 3002399751580331, Fin 1, Val 7)]
   \<and> iterator (subtract2
       (add2 (set_entry (new_matrix (Fin 3002399751580332) (Fin 3))
                (Fin 3002399751580331) (Fin 2) (Val 7))
             (new_matrix (Fin 3002399751580332) (Fin 3)))
       (new_matrix (Fin 3002399751580332) (Fin 3)))
     = [(Fin 3002399751580330, Fin 2, Val 7)]
   \<and> get (set_entry (new_matrix (Fin 1) (Fin 0)) (Fin 0) (Fin 0) (Val 5)) (Fin 0) (Fin 0) = Val 5
   \<and> get (subtract2
        (add2 (set_entry (new_matrix (Fin 1) (Fin 0)) (Fin 0) (Fin 0) (Val 5))
              (new_matrix (Fin 1) (Fin 0)))
        (new_matrix (Fin 1) (Fin 0))) (Fin 0) (Fin 0) = Val 0"
proof -
  have "entries (setElement (new_matrix (Fin 1) (Fin 1)) (Fin 0) (Fin 0) (Val 9007199254740991))
     = [(Fin 0, Fin 0, Val 9007199254740991)]"
    "entries (subtract
        (add (setElement (new_matrix (Fin 1) (Fin 1)) (Fin 0) (Fin 0) (Val 9007199254740991))
             (setElement (new_matrix (Fin 1) (Fin 1)) (Fin 0) (Fin 0) (Val 2)))
        (setElement (new_matrix (Fin 1) (Fin 1)) (Fin 0) (Fin 0) (Val 2)))
     = [(Fin 0, Fin 0, Val 9007199254740990)]"
    "iterator (set_entry (new_matrix (Fin 1) (Fin 1)) (Fin 0) (Fin 0) (Val 9007199254740991))
     = [(Fin 0, Fin 0, Val 9007199254740991)]"
    "iterator (subtract2
        (add2 (set_entry (new_matrix (Fin 1) (Fin 1)) (Fin 0) (Fin 0) (Val 9007199254740991))
              (set_entry (new_matrix (Fin 1) (Fin 1)) (Fin 0) (Fin 0) (Val 2)))
        (set_entry (new_matrix (Fin 1) (Fin 1)) (Fin 0) (Fin 0) (Val 2)))
     = [(Fin 0, Fin 0, Val 9007199254740990)]"
    "get (set_entry (new_matrix (Fin 1) (Fin 0)) (Fin 0) (Fin 0) (Val 5)) (Fin 0) (Fin 0) = Val 5"
    "get (subtract2
        (add2 (set_entry (new_matrix (Fin 1) (Fin 0)) (Fin 0) (Fin 0) (Val 5))
              (new_matrix (Fin 1) (Fin 0)))
        (new_matrix (Fin 1) (Fin 0))) (Fin 0) (Fin 0) = Val 0"
    by code_simp+
  with subtract2_key_rounds show ?thesis
    by (intro conjI)
qed

text \<open>
  C7 (as amended). For well-formed matrices A and B of the same dimensions R x C, with
  \<open>R * C\<close> at most \<open>2^53\<close> and with the sum A[r][c] + B[r][c] of magnitude at most \<open>2^53\<close>
  at every coordinate, subtract(add(A, B), B) has the dimensions of A and exactly the
  stored entries of A. Both programs.
\<close>

theorem subtract_add_inverse:
  "(well_formed R C A \<and> well_formed R C B
      \<and> (\<forall>i j. i < R \<longrightarrow> j < C \<longrightarrow> \<bar>entry A i j + entry B i j\<bar> \<le> 9007199254740992) \<longrightarrow>
      rows (subtract (add A B) B) = rows A \<and> cols (subtract (add A B) B) = cols A
      \<and> set (elements (subtract (add A B) B)) = set (elements A)
      \<and> set (entries (subtract (add A B) B)) = set (entries A))
   \<and> (well_formed2 R C A2 \<and> well_formed2 R C B2
      \<and> (\<forall>i j. i < R \<longrightarrow> j < C \<longrightarrow> \<bar>entry2 A2 i j + entry2 B2 i j\<bar> \<le> 9007199254740992) \<longrightarrow>
      rows (subtract2 (add2 A2 B2) B2) = rows A2 \<and> cols (subtract2 (add2 A2 B2) B2) = cols A2
      \<and> set (elements (subtract2 (add2 A2 B2) B2)) = set (elements A2)
      \<and> set (iterator (subtract2 (add2 A2 B2) B2)) = set (iterator A2))"
proof (intro conjI impI)
  assume h: "well_formed R C A \<and> well_formed R C B
      \<and> (\<forall>i j. i < R \<longrightarrow> j < C \<longrightarrow> \<bar>entry A i j + entry B i j\<bar> \<le> 9007199254740992)"
  let ?S = "add A B" and ?D = "subtract (add A B) B"
  from h have wa: "well_formed R C A" and wb: "well_formed R C B"
    and bd: "\<And>i j. i < R \<Longrightarrow> j < C \<Longrightarrow> \<bar>entry A i j + entry B i j\<bar> \<le> 9007199254740992"
    by simp_all
  from wa obtain a where a: "elements A = vals a" and ea: "elided a"
    and ca: "coded skey split_key R C a" and fa': "\<forall>k. \<bar>value_at a k\<bar> \<le> 9007199254740992"
    by (rule well_formed_store)
  from fa' have fa: "\<And>k. \<bar>value_at a k\<bar> \<le> 9007199254740992" by simp
  from wb obtain b where b: "elements B = vals b" and eb: "elided b"
    and cb: "coded skey split_key R C b"
    by (rule well_formed_store)
  from wa have d: "int R * int C \<le> 9007199254740992"
    and da: "distinct (map fst (elements A))"
    by (simp_all add: well_formed_def elided_def)
  from inverse_store[OF ea eb ca cb agrees_key_of separates_skey[OF d] fa
      bd[unfolded entry_vals[OF a] entry_vals[OF b]]]
  obtain x y where x: "combine key_of val_add (vals a) (decoded split_key (vals b)) = vals x"
    and ex: "elided x"
    and y: "combine key_of val_sub (vals x) (decoded split_key (vals b)) = vals y"
    and s: "set (vals y) = set (vals a)"
    by blast
  have es: "elements ?S = vals x"
    unfolding add_elements[OF da] a entries_decoded b by (rule x)
  from ex have ds: "distinct (map fst (elements ?S))"
    by (simp add: es keys_vals elided_def)
  have ed: "elements ?D = vals y"
    unfolding subtract_elements[OF ds] es entries_decoded b by (rule y)
  show "rows ?D = rows A" "cols ?D = cols A"
    by (simp_all add: dims_subtract dims_add)
  show e: "set (elements ?D) = set (elements A)"
    by (simp add: ed a s)
  show "set (entries ?D) = set (entries A)"
    unfolding entries_decoded by (rule set_decoded_cong[OF e])
next
  assume h: "well_formed2 R C A2 \<and> well_formed2 R C B2
      \<and> (\<forall>i j. i < R \<longrightarrow> j < C \<longrightarrow> \<bar>entry2 A2 i j + entry2 B2 i j\<bar> \<le> 9007199254740992)"
  let ?S = "add2 A2 B2" and ?D = "subtract2 (add2 A2 B2) B2"
  from h have wa: "well_formed2 R C A2" and wb: "well_formed2 R C B2"
    and bd: "\<And>i j. i < R \<Longrightarrow> j < C \<Longrightarrow> \<bar>entry2 A2 i j + entry2 B2 i j\<bar> \<le> 9007199254740992"
    by simp_all
  from wa obtain a where a: "elements A2 = vals a" and ea: "elided a"
    and ca: "coded (nkey C) (key_coords (Fin C)) R C a"
    and fa': "\<forall>k. \<bar>value_at a k\<bar> \<le> 9007199254740992"
    by (rule well_formed2_store)
  from fa' have fa: "\<And>k. \<bar>value_at a k\<bar> \<le> 9007199254740992" by simp
  from wb obtain b where b: "elements B2 = vals b" and eb: "elided b"
    and cb: "coded (nkey C) (key_coords (Fin C)) R C b"
    by (rule well_formed2_store)
  from wa have d: "rows A2 = Fin R" "cols A2 = Fin C" "int R * int C \<le> 9007199254740992"
    by (simp_all add: well_formed2_def)
  from wb have db: "cols B2 = Fin C"
    by (simp add: well_formed2_def)
  have bd': "\<bar>value_at a (nkey C i j) + value_at b (nkey C i j)\<bar> \<le> 9007199254740992"
    if "i < R" "j < C" for i j
    using bd[OF that] entry2_vals[OF a d(2,3) that] entry2_vals[OF b db d(3) that] by simp
  from inverse_store[OF ea eb ca cb agrees_getKey[OF d(2,3)] separates_nkey fa bd']
  obtain x y
    where x: "combine (getKey A2) val_add (vals a) (decoded (key_coords (Fin C)) (vals b)) = vals x"
    and ex: "elided x"
    and y: "combine (getKey A2) val_sub (vals x) (decoded (key_coords (Fin C)) (vals b)) = vals y"
    and s: "set (vals y) = set (vals a)"
    by blast
  have bd1: "\<bar>entry2 A2 i j + 1 * entry2 B2 i j\<bar> \<le> 9007199254740992"
    if "i < R" "j < C" for i j
    using bd[OF that] by simp
  have ws: "well_formed2 R C ?S"
    by (rule combined_numeric(1)[where s = 1, OF val_add_step wa wb bd1 add2_elements[OF wa]
          dims_add2])
  have es: "elements ?S = vals x"
    unfolding add2_elements[OF wa] a iterator_decoded b db by (rule x)
  have gs: "getKey ?S = getKey A2"
    by (rule getKey_cong) (simp add: dims_add2)
  have ed: "elements ?D = vals y"
    unfolding subtract2_elements[OF ws] es iterator_decoded b db gs by (rule y)
  show "rows ?D = rows A2" "cols ?D = cols A2"
    by (simp_all add: dims_subtract2 dims_add2)
  show e: "set (elements ?D) = set (elements A2)"
    by (simp add: ed a s)
  have "cols ?D = cols A2" by (simp add: dims_subtract2 dims_add2)
  then show "set (iterator ?D) = set (iterator A2)"
    unfolding iterator_decoded by (simp add: set_decoded_cong[OF e])
qed

theorem subtract_add_inverse_witness:
  "set (entries (subtract (add
        (setElements (new_matrix (Fin 2) (Fin 2))
          [(Fin 0, Fin 0, Val 1), (Fin 0, Fin 1, Val 2), (Fin 1, Fin 0, Val 3),
           (Fin 1, Fin 1, Val 4)])
        (setElements (new_matrix (Fin 2) (Fin 2))
          [(Fin 0, Fin 0, Val (- 1)), (Fin 1, Fin 1, Val 6)]))
        (setElements (new_matrix (Fin 2) (Fin 2))
          [(Fin 0, Fin 0, Val (- 1)), (Fin 1, Fin 1, Val 6)])))
   = {(Fin 0, Fin 0, Val 1), (Fin 0, Fin 1, Val 2), (Fin 1, Fin 0, Val 3), (Fin 1, Fin 1, Val 4)}
   \<and> set (iterator (subtract2 (add2
        (set_entries (new_matrix (Fin 2) (Fin 2))
          [(Fin 0, Fin 0, Val 1), (Fin 0, Fin 1, Val 2), (Fin 1, Fin 0, Val 3),
           (Fin 1, Fin 1, Val 4)])
        (set_entries (new_matrix (Fin 2) (Fin 2))
          [(Fin 0, Fin 0, Val (- 1)), (Fin 1, Fin 1, Val 6)]))
        (set_entries (new_matrix (Fin 2) (Fin 2))
          [(Fin 0, Fin 0, Val (- 1)), (Fin 1, Fin 1, Val 6)])))
   = {(Fin 0, Fin 0, Val 1), (Fin 0, Fin 1, Val 2), (Fin 1, Fin 0, Val 3), (Fin 1, Fin 1, Val 4)}"
proof -
  define A where "A = setElements (new_matrix (Fin 2) (Fin 2))
       [(Fin 0, Fin 0, Val 1), (Fin 0, Fin 1, Val 2), (Fin 1, Fin 0, Val 3), (Fin 1, Fin 1, Val 4)]"
  define B where "B = setElements (new_matrix (Fin 2) (Fin 2))
       [(Fin 0, Fin 0, Val (- 1)), (Fin 1, Fin 1, Val 6)]"
  define A2 where "A2 = set_entries (new_matrix (Fin 2) (Fin 2))
       [(Fin 0, Fin 0, Val 1), (Fin 0, Fin 1, Val 2), (Fin 1, Fin 0, Val 3), (Fin 1, Fin 1, Val 4)]"
  define B2 where "B2 = set_entries (new_matrix (Fin 2) (Fin 2))
       [(Fin 0, Fin 0, Val (- 1)), (Fin 1, Fin 1, Val 6)]"
  have w: "well_formed 2 2 A" "well_formed 2 2 B" "well_formed2 2 2 A2" "well_formed2 2 2 B2"
    unfolding A_def B_def A2_def B2_def by code_simp+
  have e: "entry A 0 0 = 1" "entry A 0 (Suc 0) = 2" "entry A (Suc 0) 0 = 3"
    "entry A (Suc 0) (Suc 0) = 4"
    "entry B 0 0 = - 1" "entry B 0 (Suc 0) = 0" "entry B (Suc 0) 0 = 0"
    "entry B (Suc 0) (Suc 0) = 6"
    "entry2 A2 0 0 = 1" "entry2 A2 0 (Suc 0) = 2" "entry2 A2 (Suc 0) 0 = 3"
    "entry2 A2 (Suc 0) (Suc 0) = 4"
    "entry2 B2 0 0 = - 1" "entry2 B2 0 (Suc 0) = 0" "entry2 B2 (Suc 0) 0 = 0"
    "entry2 B2 (Suc 0) (Suc 0) = 6"
    unfolding A_def B_def A2_def B2_def by code_simp+
  have b: "\<forall>i j. i < 2 \<longrightarrow> j < 2 \<longrightarrow> \<bar>entry A i j + entry B i j\<bar> \<le> 9007199254740992"
    using e by (auto dest!: below_2)
  have b2: "\<forall>i j. i < 2 \<longrightarrow> j < 2 \<longrightarrow> \<bar>entry2 A2 i j + entry2 B2 i j\<bar> \<le> 9007199254740992"
    using e by (auto dest!: below_2)
  from w b have h: "well_formed 2 2 A \<and> well_formed 2 2 B
      \<and> (\<forall>i j. i < 2 \<longrightarrow> j < 2 \<longrightarrow> \<bar>entry A i j + entry B i j\<bar> \<le> 9007199254740992)"
    by (intro conjI)
  from w b2 have h2: "well_formed2 2 2 A2 \<and> well_formed2 2 2 B2
      \<and> (\<forall>i j. i < 2 \<longrightarrow> j < 2 \<longrightarrow> \<bar>entry2 A2 i j + entry2 B2 i j\<bar> \<le> 9007199254740992)"
    by (intro conjI)
  have l: "entries A = [(Fin 0, Fin 0, Val 1), (Fin 0, Fin 1, Val 2), (Fin 1, Fin 0, Val 3),
       (Fin 1, Fin 1, Val 4)]"
    "iterator A2 = [(Fin 0, Fin 0, Val 1), (Fin 0, Fin 1, Val 2), (Fin 1, Fin 0, Val 3),
       (Fin 1, Fin 1, Val 4)]"
    unfolding A_def A2_def by code_simp+
  note t = subtract_add_inverse[of 2 2 A B A2 B2]
  have "set (entries (subtract (add A B) B)) = set (entries A)"
    by (rule t[THEN conjunct1, THEN mp, OF h, THEN conjunct2, THEN conjunct2, THEN conjunct2])
  moreover
  have "set (iterator (subtract2 (add2 A2 B2) B2)) = set (iterator A2)"
    by (rule t[THEN conjunct2, THEN mp, OF h2, THEN conjunct2, THEN conjunct2, THEN conjunct2])
  ultimately have "set (entries (subtract (add A B) B))
      = {(Fin 0, Fin 0, Val 1), (Fin 0, Fin 1, Val 2), (Fin 1, Fin 0, Val 3), (Fin 1, Fin 1, Val 4)}"
    "set (iterator (subtract2 (add2 A2 B2) B2))
      = {(Fin 0, Fin 0, Val 1), (Fin 0, Fin 1, Val 2), (Fin 1, Fin 0, Val 3), (Fin 1, Fin 1, Val 4)}"
    by (simp_all only: l) simp_all
  then show ?thesis
    unfolding A_def B_def A2_def B2_def by (rule conjI)
qed

section \<open>Reading a matrix file: the proofs\<close>

lemma split_nonempty: "split d s \<noteq> []"
  by (induction s) (auto split: list.splits)

lemma split_append: "split d (a @ d # b) = split d a @ split d b"
proof (induction a)
  case Nil
  then show ?case by simp
next
  case (Cons x a)
  obtain p ps where s: "split d a = p # ps"
    using split_nonempty[of d a] by (cases "split d a") auto
  with Cons show ?case by simp
qed

lemma file_lines_append: "file_lines (a @ 10 # b) = file_lines a @ file_lines b"
  by (simp add: file_lines_def split_append)

lemma split_pieces: "p \<in> set (split d w) \<Longrightarrow> set p \<subseteq> set w"
proof (induction w arbitrary: p)
  case Nil
  then show ?case by simp
next
  case (Cons x w)
  obtain q qs where s: "split d w = q # qs"
    using split_nonempty[of d w] by (cases "split d w") auto
  from Cons.IH[of q] s have q: "set q \<subseteq> set w" by simp
  from Cons.IH s have qs: "\<And>r. r \<in> set qs \<Longrightarrow> set r \<subseteq> set w" by simp
  show ?case
  proof (cases "x = d")
    case True
    with Cons.prems s have "p = [] \<or> p = q \<or> p \<in> set qs" by simp
    with q qs show ?thesis by auto
  next
    case False
    with Cons.prems s have "p = x # q \<or> p \<in> set qs" by simp
    with q qs show ?thesis by auto
  qed
qed

lemma trim_spaces:
  assumes "list_all is_space s"
  shows "trim s = []"
proof -
  from assms have "\<forall>x\<in>set s. is_space x"
    by (simp add: list_all_iff)
  then have d: "dropWhile is_space s = []"
    by (rule dropWhile_eq_Nil_conv[THEN iffD2])
  show ?thesis
    unfolding trim_def d by simp
qed

lemma file_lines_blank:
  assumes "list_all is_space w"
  shows "file_lines w = []"
proof -
  have "trim p = []" if "p \<in> set (split 10 w)" for p
  proof (rule trim_spaces)
    from split_pieces[OF that] assms show "list_all is_space p"
      by (auto simp: list_all_iff)
  qed
  then show ?thesis
    by (simp add: file_lines_def filter_empty_conv)
qed

lemma file_lines_blank_line:
  "list_all is_space w \<Longrightarrow> file_lines (a @ 10 # w @ 10 # b) = file_lines (a @ 10 # b)"
  by (simp add: file_lines_append file_lines_blank)

lemma expect_Some: "expect l s = Some r \<longleftrightarrow> s = l @ r"
  by (auto simp: expect_def) (metis append_take_drop_id)

lemma digits_plus_None: "digits_plus r = None \<longleftrightarrow> (r = [] \<or> \<not> is_digit (hd r))"
  by (cases r) (auto simp: digits_plus_def)

lemma header_at_None:
  "header_at name t = None \<longleftrightarrow> \<not> (\<exists>d post. t = lit name @ d # post \<and> is_digit d)"
proof (cases "expect (lit name) t")
  case None
  then have "\<forall>r. t \<noteq> lit name @ r"
    using expect_Some[of "lit name" t] by auto
  with None show ?thesis
    by (auto simp: header_at_def)
next
  case (Some r)
  then have t: "t = lit name @ r" by (simp add: expect_Some)
  have "header_at name t = None \<longleftrightarrow> digits_plus r = None"
    by (cases "digits_plus r") (auto simp: header_at_def Some)
  also have "\<dots> \<longleftrightarrow> \<not> (\<exists>d post. r = d # post \<and> is_digit d)"
    by (cases r) (auto simp: digits_plus_None)
  finally show ?thesis by (simp add: t)
qed

lemma find_match_None: "find_match p s = None \<longleftrightarrow> (\<forall>pre t. s = pre @ t \<longrightarrow> p t = None)"
proof (induction s)
  case Nil
  then show ?case by simp
next
  case (Cons c cs)
  show ?case
  proof
    assume n: "find_match p (c # cs) = None"
    then have h: "p (c # cs) = None" and r: "find_match p cs = None"
      by (auto split: option.splits)
    show "\<forall>pre t. c # cs = pre @ t \<longrightarrow> p t = None"
    proof (intro allI impI)
      fix pre t assume e: "c # cs = pre @ t"
      show "p t = None"
      proof (cases pre)
        case Nil
        with e h show ?thesis by simp
      next
        case (Cons x pre')
        with e have "cs = pre' @ t" by simp
        with r Cons.IH show ?thesis by blast
      qed
    qed
  next
    assume a: "\<forall>pre t. c # cs = pre @ t \<longrightarrow> p t = None"
    then have "p (c # cs) = None" by (metis append_Nil)
    moreover have "find_match p cs = None"
      unfolding Cons.IH
    proof (intro allI impI)
      fix pre t assume "cs = pre @ t"
      then have "c # cs = (c # pre) @ t" by simp
      with a show "p t = None" by blast
    qed
    ultimately show "find_match p (c # cs) = None" by simp
  qed
qed

lemma header_missing:
  "find_match (header_at name) s = None
   \<longleftrightarrow> \<not> (\<exists>pre d post. s = pre @ lit name @ d # post \<and> is_digit d)"
  unfolding find_match_None header_at_None by blast

lemma elements_loop:
  "foldl (\<lambda>elements line. case line_element line of Some e \<Rightarrow> elements @ [e] | None \<Rightarrow> elements)
         acc ls
   = acc @ List.map_filter line_element ls"
  by (induction ls arbitrary: acc) (auto simp: List.map_filter_simps split: option.splits)

lemma load_loop:
  "foldl (\<lambda>this line. case line_element line of
            Some (row, col, v) \<Rightarrow> setElement this row col v
          | None \<Rightarrow> this) m ls
   = setElements m (List.map_filter line_element ls)"
  by (induction ls arbitrary: m)
     (auto simp: List.map_filter_simps setElements_def split: option.splits)

lemma map_filter_skip:
  "line_element l = None \<Longrightarrow>
   List.map_filter line_element (xs @ l # ys) = List.map_filter line_element (xs @ ys)"
  by (simp add: List.map_filter_def)

lemma read_lines_elements:
  assumes "3 \<le> length ls"
      and "find_match (header_at ''rows='') (ls ! 0) = Some rm"
      and "find_match (header_at ''cols='') (ls ! 1) = Some cm"
  shows "read_lines ls
         = Inr (parseInt_digits rm, parseInt_digits cm, List.map_filter line_element (drop 2 ls))"
    and "load_lines ls
         = Inr (setElements \<lparr>rows = parseInt_digits rm, cols = parseInt_digits cm, elements = []\<rparr>
                 (List.map_filter line_element (drop 2 ls)))"
  using assms by (simp_all add: read_lines_def load_lines_def elements_loop load_loop)

lemma read_lines_skip:
  assumes a: "2 \<le> length la" and n: "3 \<le> length la + length lb"
      and l: "line_element t = None"
  shows "read_lines (la @ t # lb) = read_lines (la @ lb)"
    and "load_lines (la @ t # lb) = load_lines (la @ lb)"
proof -
  from a have "0 < length la" "1 < length la" by linarith+
  then have h: "(la @ t # lb) ! 0 = (la @ lb) ! 0" "(la @ t # lb) ! 1 = (la @ lb) ! 1"
    by (simp_all only: nth_append if_True)
  from a have d: "drop 2 (la @ t # lb) = drop 2 la @ t # lb" "drop 2 (la @ lb) = drop 2 la @ lb"
    by simp_all
  from n have g: "\<not> length (la @ t # lb) < 3" "\<not> length (la @ lb) < 3"
    by simp_all
  show "read_lines (la @ t # lb) = read_lines (la @ lb)"
    unfolding read_lines_def
    by (simp only: g h d elements_loop map_filter_skip[OF l] if_False)
  show "load_lines (la @ t # lb) = load_lines (la @ lb)"
    unfolding load_lines_def
    by (simp only: g h d load_loop map_filter_skip[OF l] if_False)
qed

lemma file_lines_single: "10 \<notin> set l \<Longrightarrow> file_lines l = (if trim l = [] then [] else [trim l])"
  by (simp add: file_lines_def split_no_sep)

text \<open>
  C9. Parsing fails with a malformed-input error when the file has fewer than 3 non-blank
  lines, and when the first non-blank line holds no \<open>rows=\<close> followed by a digit or the
  second no \<open>cols=\<close> followed by a digit. Otherwise it returns the dimensions and the
  elements of the lines that match the element pattern, in order: a line that does not
  match contributes nothing and raises no error, so removing it leaves the result as it
  was (as long as 3 non-blank lines remain), and so does removing a blank line. Both
  programs.
\<close>

theorem parse_lenient:
  "(length (file_lines content) < 3 \<longrightarrow>
      readMatrix content = Inl InsufficientData \<and> fromFile content = Inl InsufficientData
      \<and> loadFromFile content = Inl InsufficientData)
   \<and> (3 \<le> length (file_lines content)
       \<and> (\<not> (\<exists>pre d post. file_lines content ! 0 = pre @ lit ''rows='' @ d # post \<and> is_digit d)
          \<or> \<not> (\<exists>pre d post. file_lines content ! 1 = pre @ lit ''cols='' @ d # post \<and> is_digit d))
      \<longrightarrow> readMatrix content = Inl WrongFormat \<and> fromFile content = Inl WrongFormat
          \<and> loadFromFile content = Inl WrongFormat)
   \<and> MalformedInput InsufficientData \<and> MalformedInput WrongFormat
   \<and> (3 \<le> length (file_lines content)
       \<and> (\<exists>pre d post. file_lines content ! 0 = pre @ lit ''rows='' @ d # post \<and> is_digit d)
       \<and> (\<exists>pre d post. file_lines content ! 1 = pre @ lit ''cols='' @ d # post \<and> is_digit d)
      \<longrightarrow> (\<exists>r c.
            readMatrix content
              = Inr (r, c, List.map_filter line_element (drop 2 (file_lines content)))
          \<and> loadFromFile content
              = Inr (setElements \<lparr>rows = r, cols = c, elements = []\<rparr>
                      (List.map_filter line_element (drop 2 (file_lines content))))))
   \<and> (2 \<le> length (file_lines a) \<and> 3 \<le> length (file_lines a) + length (file_lines b)
       \<and> 10 \<notin> set l \<and> line_element (trim l) = None
      \<longrightarrow> readMatrix (a @ 10 # l @ 10 # b) = readMatrix (a @ 10 # b)
          \<and> fromFile (a @ 10 # l @ 10 # b) = fromFile (a @ 10 # b)
          \<and> loadFromFile (a @ 10 # l @ 10 # b) = loadFromFile (a @ 10 # b))
   \<and> (list_all is_space w
      \<longrightarrow> readMatrix (a @ 10 # w @ 10 # b) = readMatrix (a @ 10 # b)
          \<and> fromFile (a @ 10 # w @ 10 # b) = fromFile (a @ 10 # b)
          \<and> loadFromFile (a @ 10 # w @ 10 # b) = loadFromFile (a @ 10 # b))"
proof (intro conjI impI)
  assume "length (file_lines content) < 3"
  then show "readMatrix content = Inl InsufficientData" "fromFile content = Inl InsufficientData"
    "loadFromFile content = Inl InsufficientData"
    by (simp_all add: readMatrix_def fromFile_def loadFromFile_def read_lines_def load_lines_def)
next
  assume h: "3 \<le> length (file_lines content)
       \<and> (\<not> (\<exists>pre d post. file_lines content ! 0 = pre @ lit ''rows='' @ d # post \<and> is_digit d)
          \<or> \<not> (\<exists>pre d post. file_lines content ! 1 = pre @ lit ''cols='' @ d # post \<and> is_digit d))"
  then have "find_match (header_at ''rows='') (file_lines content ! 0) = None
           \<or> find_match (header_at ''cols='') (file_lines content ! 1) = None"
    unfolding header_missing by blast
  with h have r: "read_lines (file_lines content) = Inl WrongFormat"
    and l: "load_lines (file_lines content) = Inl WrongFormat"
    by (auto simp: read_lines_def load_lines_def split: option.splits)
  from r l show "readMatrix content = Inl WrongFormat" "fromFile content = Inl WrongFormat"
    "loadFromFile content = Inl WrongFormat"
    by (simp_all add: readMatrix_def fromFile_def loadFromFile_def)
next
  show "MalformedInput InsufficientData" "MalformedInput WrongFormat"
    by (simp_all add: MalformedInput_def)
next
  assume h: "3 \<le> length (file_lines content)
       \<and> (\<exists>pre d post. file_lines content ! 0 = pre @ lit ''rows='' @ d # post \<and> is_digit d)
       \<and> (\<exists>pre d post. file_lines content ! 1 = pre @ lit ''cols='' @ d # post \<and> is_digit d)"
  then have "find_match (header_at ''rows='') (file_lines content ! 0) \<noteq> None"
    and "find_match (header_at ''cols='') (file_lines content ! 1) \<noteq> None"
    unfolding header_missing by blast+
  then obtain rm cm
    where m: "find_match (header_at ''rows='') (file_lines content ! 0) = Some rm"
      "find_match (header_at ''cols='') (file_lines content ! 1) = Some cm"
    by auto
  from h have n: "3 \<le> length (file_lines content)" by simp
  show "\<exists>r c.
            readMatrix content
              = Inr (r, c, List.map_filter line_element (drop 2 (file_lines content)))
          \<and> loadFromFile content
              = Inr (setElements \<lparr>rows = r, cols = c, elements = []\<rparr>
                      (List.map_filter line_element (drop 2 (file_lines content))))"
    unfolding readMatrix_def loadFromFile_def
    using read_lines_elements[OF n m] by blast
next
  assume h: "2 \<le> length (file_lines a) \<and> 3 \<le> length (file_lines a) + length (file_lines b)
       \<and> 10 \<notin> set l \<and> line_element (trim l) = None"
  then have s: "file_lines l = (if trim l = [] then [] else [trim l])"
    by (simp add: file_lines_single)
  have r: "read_lines (file_lines (a @ 10 # l @ 10 # b)) = read_lines (file_lines (a @ 10 # b))"
    using h read_lines_skip(1)[of "file_lines a" "file_lines b" "trim l"]
    by (simp add: file_lines_append s)
  have ld: "load_lines (file_lines (a @ 10 # l @ 10 # b)) = load_lines (file_lines (a @ 10 # b))"
    using h read_lines_skip(2)[of "file_lines a" "file_lines b" "trim l"]
    by (simp add: file_lines_append s)
  from r ld show "readMatrix (a @ 10 # l @ 10 # b) = readMatrix (a @ 10 # b)"
    "fromFile (a @ 10 # l @ 10 # b) = fromFile (a @ 10 # b)"
    "loadFromFile (a @ 10 # l @ 10 # b) = loadFromFile (a @ 10 # b)"
    by (simp_all add: readMatrix_def fromFile_def loadFromFile_def)
next
  assume "list_all is_space w"
  then have "file_lines (a @ 10 # w @ 10 # b) = file_lines (a @ 10 # b)"
    by (rule file_lines_blank_line)
  then show "readMatrix (a @ 10 # w @ 10 # b) = readMatrix (a @ 10 # b)"
    "fromFile (a @ 10 # w @ 10 # b) = fromFile (a @ 10 # b)"
    "loadFromFile (a @ 10 # w @ 10 # b) = loadFromFile (a @ 10 # b)"
    by (simp_all add: readMatrix_def fromFile_def loadFromFile_def)
qed

theorem parse_lenient_witness:
  "readMatrix (lit ''rows=2'' @ 10 # lit ''cols=2'') = Inl InsufficientData
   \<and> loadFromFile (lit ''rows=2'' @ 10 # lit ''cols='' @ 10 # lit ''(0, 0, 1)'') = Inl WrongFormat
   \<and> readMatrix ((lit ''rows=2'' @ 10 # lit ''cols=2'') @ 10 # lit ''(1, 2, abc)''
                   @ 10 # lit ''(1, 1, 4)'')
       = readMatrix ((lit ''rows=2'' @ 10 # lit ''cols=2'') @ 10 # lit ''(1, 1, 4)'')
   \<and> readMatrix ((lit ''rows=2'' @ 10 # lit ''cols=2'') @ 10 # [32, 9]
                   @ 10 # lit ''(1, 1, 4)'')
       = readMatrix ((lit ''rows=2'' @ 10 # lit ''cols=2'') @ 10 # lit ''(1, 1, 4)'')
   \<and> readMatrix ((lit ''rows=2'' @ 10 # lit ''cols=2'') @ 10 # lit ''(1, 1, 4)'')
       = Inr (Fin 2, Fin 2, [(Fin 1, Fin 1, Val 4)])"
proof -
  define a where "a = lit ''rows=2'' @ 10 # lit ''cols=2''"
  define b where "b = lit ''(1, 1, 4)''"
  define l where "l = lit ''(1, 2, abc)''"
  define c where "c = lit ''rows=2'' @ 10 # lit ''cols='' @ 10 # lit ''(0, 0, 1)''"
  have 1: "length (file_lines a) < 3"
    unfolding a_def by code_simp
  have 2: "3 \<le> length (file_lines c)"
    "find_match (header_at ''cols='') (file_lines c ! 1) = None"
    unfolding c_def by code_simp+
  have 3: "2 \<le> length (file_lines a) \<and> 3 \<le> length (file_lines a) + length (file_lines b)
       \<and> 10 \<notin> set l \<and> line_element (trim l) = None"
    unfolding a_def b_def l_def by code_simp
  have 4: "list_all is_space [32, 9]"
    by code_simp
  have 5: "readMatrix (a @ 10 # b) = Inr (Fin 2, Fin 2, [(Fin 1, Fin 1, Val 4)])"
    unfolding a_def b_def by code_simp
  have r1: "readMatrix a = Inl InsufficientData"
    using parse_lenient[of a, THEN conjunct1, THEN mp, OF 1] by (elim conjE)
  from 2 have h2: "3 \<le> length (file_lines c)
       \<and> (\<not> (\<exists>pre d post. file_lines c ! 0 = pre @ lit ''rows='' @ d # post \<and> is_digit d)
          \<or> \<not> (\<exists>pre d post. file_lines c ! 1 = pre @ lit ''cols='' @ d # post \<and> is_digit d))"
    unfolding header_missing[symmetric] by simp
  have r2: "loadFromFile c = Inl WrongFormat"
    using parse_lenient[of c, THEN conjunct2, THEN conjunct1, THEN mp, OF h2] by (elim conjE)
  have r3: "readMatrix (a @ 10 # l @ 10 # b) = readMatrix (a @ 10 # b)"
    using parse_lenient[of _ a b l, THEN conjunct2, THEN conjunct2, THEN conjunct2,
        THEN conjunct2, THEN conjunct2, THEN conjunct1, THEN mp, OF 3]
    by (elim conjE)
  have r4: "readMatrix (a @ 10 # [32, 9] @ 10 # b) = readMatrix (a @ 10 # b)"
    using parse_lenient[of _ a b _ "[32, 9]", THEN conjunct2, THEN conjunct2, THEN conjunct2,
        THEN conjunct2, THEN conjunct2, THEN conjunct2, THEN mp, OF 4]
    by (elim conjE)
  from r1 r2 r3 r4 5 show ?thesis
    unfolding a_def b_def l_def c_def by (intro conjI)
qed

end
